theory Spec2Isabelle
  imports Main "HOL-Library.Word"
begin

section \<open>Pointers, control blocks and the heap\<close>

text \<open>
  The counters of a control block are \<^verbatim>\<open>size_t\<close>: 64-bit unsigned words, so
  \<^verbatim>\<open>shared_cnt_++\<close> and \<^verbatim>\<open>--shared_cnt_\<close> wrap around.
\<close>

type_synonym size_t = "64 word"

text \<open>
  A value of type \<^verbatim>\<open>T*\<close>: the null pointer, a pointer to a separately allocated
  object (named by a number), or the address of the member \<^verbatim>\<open>holder_\<close> of the
  control block allocated at the given address
  (\<^verbatim>\<open>reinterpret_cast<T*>(&holder_)\<close>).
\<close>

datatype ptr = nullptr | Obj nat | Holder nat

text \<open>
  The two classes derived from \<^verbatim>\<open>ControlBlockBase\<close>. Both declare
  \<^verbatim>\<open>weak_cnt_ = 0\<close> and \<^verbatim>\<open>shared_cnt_ = 1\<close>; \<^verbatim>\<open>ControlBlockPtr\<close>
  adds \<^verbatim>\<open>T* p_obj_\<close>, \<^verbatim>\<open>ControlBlockMakeShared\<close> adds the raw storage
  \<^verbatim>\<open>holder_\<close>. The dynamic type of a block selects the override that a virtual call runs.
\<close>

datatype derived = ControlBlockPtr (p_obj: ptr) | ControlBlockMakeShared

record control_block =
  weak_cnt :: size_t
  shared_cnt :: size_t
  derived :: derived

text \<open>
  What the heap and the payload see, in the order it happens: \<^verbatim>\<open>new\<close> of a control block,
  the placement construction of a \<^verbatim>\<open>T\<close> in \<^verbatim>\<open>holder_\<close>, \<^verbatim>\<open>delete p_obj_\<close>,
  the explicit destructor call \<^verbatim>\<open>->~T()\<close> on \<^verbatim>\<open>holder_\<close>, and \<^verbatim>\<open>delete this\<close>.
\<close>

datatype event =
    New nat
  | Construct nat
  | Delete_p_obj nat ptr
  | Destroy_holder nat
  | Delete_this nat

text \<open>
  Undefined behaviour is a value: a call through a null \<^verbatim>\<open>p_ctrl_block_\<close>, a call on a
  control block that was deleted. \<open>Out_of_scope\<close> is a client program that names a handle
  which does not exist (any more); \<open>Exception_propagated\<close> ends a run in which the
  constructor of \<^verbatim>\<open>T\<close> threw.
\<close>

datatype error = Null_deref | Use_after_free | Out_of_scope | Exception_propagated

record shared_ptr =
  p_ctrl_block :: "nat option"
  raw_ptr :: ptr

text \<open>
  The state of a client program: its \<^verbatim>\<open>SharedPtr\<close> variables (a variable is its index,
  \<open>None\<close> once its lifetime has ended), the control blocks ever allocated (a block is its
  index, \<open>None\<close> once deleted, so that an address is never confused with a later
  allocation), and the events so far.
\<close>

record state =
  vars :: "shared_ptr option list"
  blocks :: "control_block option list"
  trace :: "event list"

definition init :: state where
  "init = \<lparr>vars = [], blocks = [], trace = []\<rparr>"

definition and_then :: "error + 'a \<Rightarrow> ('a \<Rightarrow> error + 'b) \<Rightarrow> error + 'b" where
  "and_then m f = (case m of Inl e \<Rightarrow> Inl e | Inr x \<Rightarrow> f x)"

definition block_at :: "state \<Rightarrow> nat \<Rightarrow> control_block option" where
  "block_at s a = (if a < length (blocks s) then blocks s ! a else None)"

definition new_block :: "control_block \<Rightarrow> state \<Rightarrow> nat \<times> state" where
  "new_block b s =
     (length (blocks s),
      s\<lparr>blocks := blocks s @ [Some b], trace := trace s @ [New (length (blocks s))]\<rparr>)"

subsection \<open>ControlBlockPtr and ControlBlockMakeShared\<close>

definition new_ControlBlockPtr :: "ptr \<Rightarrow> control_block" where
  "new_ControlBlockPtr p = \<lparr>weak_cnt = 0, shared_cnt = 1, derived = ControlBlockPtr p\<rparr>"

definition new_ControlBlockMakeShared :: control_block where
  "new_ControlBlockMakeShared = \<lparr>weak_cnt = 0, shared_cnt = 1, derived = ControlBlockMakeShared\<rparr>"

definition IncrSharedCount :: "nat \<Rightarrow> state \<Rightarrow> error + state" where
  "IncrSharedCount a s =
     (case block_at s a of
        None \<Rightarrow> Inl Use_after_free
      | Some b \<Rightarrow> Inr (s\<lparr>blocks := (blocks s)[a := Some (b\<lparr>shared_cnt := shared_cnt b + 1\<rparr>)]\<rparr>))"

definition GetSharedCount :: "nat \<Rightarrow> state \<Rightarrow> error + size_t" where
  "GetSharedCount a s =
     (case block_at s a of None \<Rightarrow> Inl Use_after_free | Some b \<Rightarrow> Inr (shared_cnt b))"

text \<open>
  \<^verbatim>\<open>OnZeroShared\<close>: \<^verbatim>\<open>delete p_obj_\<close> in \<^verbatim>\<open>ControlBlockPtr\<close> (a delete of the null
  pointer is logged too; it destroys nothing), \<^verbatim>\<open>reinterpret_cast<T*>(&holder_)->~T()\<close>
  in \<^verbatim>\<open>ControlBlockMakeShared\<close>.
\<close>

definition OnZeroShared :: "nat \<Rightarrow> state \<Rightarrow> error + state" where
  "OnZeroShared a s =
     (case block_at s a of
        None \<Rightarrow> Inl Use_after_free
      | Some b \<Rightarrow>
          (case derived b of
             ControlBlockPtr p \<Rightarrow> Inr (s\<lparr>trace := trace s @ [Delete_p_obj a p]\<rparr>)
           | ControlBlockMakeShared \<Rightarrow> Inr (s\<lparr>trace := trace s @ [Destroy_holder a]\<rparr>)))"

text \<open>\<^verbatim>\<open>OnZeroWeak\<close>: \<^verbatim>\<open>delete this\<close> in both classes.\<close>

definition OnZeroWeak :: "nat \<Rightarrow> state \<Rightarrow> error + state" where
  "OnZeroWeak a s =
     (case block_at s a of
        None \<Rightarrow> Inl Use_after_free
      | Some b \<Rightarrow> Inr (s\<lparr>blocks := (blocks s)[a := None], trace := trace s @ [Delete_this a]\<rparr>))"

text \<open>\<^verbatim>\<open>DecrSharedCount\<close>, the same text in both classes.\<close>

definition DecrSharedCount :: "nat \<Rightarrow> state \<Rightarrow> error + state" where
  "DecrSharedCount a s =
     (case block_at s a of
        None \<Rightarrow> Inl Use_after_free
      | Some b \<Rightarrow>
          (let b' = b\<lparr>shared_cnt := shared_cnt b - 1\<rparr>;
               s' = s\<lparr>blocks := (blocks s)[a := Some b']\<rparr>
           in if shared_cnt b' = 0 \<and> weak_cnt b' = 0
              then and_then (OnZeroShared a s') (OnZeroWeak a)
              else if shared_cnt b' = 0 then OnZeroShared a s'
              else Inr s'))"

subsection \<open>SharedPtr\<close>

definition SharedPtr_default :: shared_ptr where
  "SharedPtr_default = \<lparr>p_ctrl_block = None, raw_ptr = nullptr\<rparr>"

definition SharedPtr_nullptr :: shared_ptr where
  "SharedPtr_nullptr = \<lparr>p_ctrl_block = None, raw_ptr = nullptr\<rparr>"

text \<open>\<^verbatim>\<open>explicit SharedPtr(T* ptr)\<close> and its template twin for \<^verbatim>\<open>Y*\<close>.\<close>

definition SharedPtr_ptr :: "ptr \<Rightarrow> state \<Rightarrow> shared_ptr \<times> state" where
  "SharedPtr_ptr p s =
     (case new_block (new_ControlBlockPtr p) s of
        (a, s') \<Rightarrow> (\<lparr>p_ctrl_block = Some a, raw_ptr = p\<rparr>, s'))"

definition Get :: "shared_ptr \<Rightarrow> ptr" where
  "Get h = raw_ptr h"

definition operator_bool :: "shared_ptr \<Rightarrow> bool" where
  "operator_bool h = (if Get h = nullptr then False else True)"

text \<open>The copy constructor (and its converting twin): the test is on \<^verbatim>\<open>raw_ptr_\<close>.\<close>

definition SharedPtr_copy :: "shared_ptr \<Rightarrow> state \<Rightarrow> error + shared_ptr \<times> state" where
  "SharedPtr_copy other s =
     (if \<not> operator_bool other
      then Inr (\<lparr>p_ctrl_block = None, raw_ptr = nullptr\<rparr>, s)
      else (case p_ctrl_block other of
              None \<Rightarrow> Inl Null_deref
            | Some a \<Rightarrow>
                and_then (IncrSharedCount a s)
                  (\<lambda>s'. Inr (\<lparr>p_ctrl_block = Some a, raw_ptr = raw_ptr other\<rparr>, s'))))"

text \<open>The move constructor: the new handle, and what is left of \<^verbatim>\<open>other\<close>.\<close>

definition SharedPtr_move :: "shared_ptr \<Rightarrow> shared_ptr \<times> shared_ptr" where
  "SharedPtr_move other =
     (\<lparr>p_ctrl_block = p_ctrl_block other, raw_ptr = raw_ptr other\<rparr>,
      \<lparr>p_ctrl_block = None, raw_ptr = nullptr\<rparr>)"

text \<open>
  The aliasing constructor. The assignment under \<^verbatim>\<open>if (!other)\<close> is overwritten by the
  last statement and the call of \<^verbatim>\<open>IncrSharedCount\<close> is not guarded.
\<close>

definition SharedPtr_alias :: "shared_ptr \<Rightarrow> ptr \<Rightarrow> state \<Rightarrow> error + shared_ptr \<times> state" where
  "SharedPtr_alias other p s =
     (case p_ctrl_block other of
        None \<Rightarrow> Inl Null_deref
      | Some a \<Rightarrow>
          and_then (IncrSharedCount a s)
            (\<lambda>s'. Inr (\<lparr>p_ctrl_block = Some a, raw_ptr = p\<rparr>, s')))"

definition SharedPtr_dtor :: "shared_ptr \<Rightarrow> state \<Rightarrow> error + state" where
  "SharedPtr_dtor h s =
     (case p_ctrl_block h of None \<Rightarrow> Inr s | Some a \<Rightarrow> DecrSharedCount a s)"

definition UseCount :: "shared_ptr \<Rightarrow> state \<Rightarrow> error + size_t" where
  "UseCount h s =
     (case p_ctrl_block h of None \<Rightarrow> Inr 0 | Some a \<Rightarrow> GetSharedCount a s)"

text \<open>
  \<^verbatim>\<open>MakeShared\<close>. What the constructor of \<^verbatim>\<open>T\<close> does with the arguments is a
  parameter: it returns, or it throws. When it throws, the local \<^verbatim>\<open>result\<close>, whose
  \<^verbatim>\<open>p_ctrl_block_\<close> is already set, is destroyed by stack unwinding and the exception
  leaves the function.
\<close>

datatype ctor_result = Constructed | Ctor_throws

datatype 'a outcome = Return 'a | Throw

text \<open>
  \<^verbatim>\<open>new\<close> is taken to succeed. The \<^verbatim>\<open>dynamic_cast\<close> is on the block just allocated and
  yields that same block.
\<close>

definition MakeShared :: "ctor_result \<Rightarrow> state \<Rightarrow> error + shared_ptr outcome \<times> state" where
  "MakeShared r s =
     (case new_block new_ControlBlockMakeShared s of
        (a, s1) \<Rightarrow>
          (let result = SharedPtr_default\<lparr>p_ctrl_block := Some a\<rparr>
           in case r of
                Constructed \<Rightarrow>
                  Inr (Return (result\<lparr>raw_ptr := Holder a\<rparr>),
                       s1\<lparr>trace := trace s1 @ [Construct a]\<rparr>)
              | Ctor_throws \<Rightarrow>
                  and_then (SharedPtr_dtor result s1) (\<lambda>s2. Inr (Throw, s2))))"

subsection \<open>Operations on handles that are variables of the client\<close>

definition var :: "state \<Rightarrow> nat \<Rightarrow> error + shared_ptr" where
  "var s v =
     (if v < length (vars s)
      then (case vars s ! v of None \<Rightarrow> Inl Out_of_scope | Some h \<Rightarrow> Inr h)
      else Inl Out_of_scope)"

definition push_var :: "shared_ptr \<Rightarrow> state \<Rightarrow> state" where
  "push_var h s = s\<lparr>vars := vars s @ [Some h]\<rparr>"

definition set_var :: "nat \<Rightarrow> shared_ptr \<Rightarrow> state \<Rightarrow> state" where
  "set_var v h s = s\<lparr>vars := (vars s)[v := Some h]\<rparr>"

text \<open>\<^verbatim>\<open>a.Swap(b)\<close> on two variables.\<close>

definition Swap :: "nat \<Rightarrow> nat \<Rightarrow> state \<Rightarrow> error + state" where
  "Swap this other s =
     and_then (var s this) (\<lambda>t.
     and_then (var s other) (\<lambda>src.
       Inr (set_var other t (set_var this src s))))"

text \<open>
  \<^verbatim>\<open>temp.Swap(*this)\<close> for a temporary, followed by the destructor of the temporary at
  the end of the full-expression: the shape of every assignment and of both \<^verbatim>\<open>Reset\<close>s.
\<close>

definition temp_Swap :: "shared_ptr \<Rightarrow> nat \<Rightarrow> state \<Rightarrow> error + state" where
  "temp_Swap temp this s =
     and_then (var s this) (\<lambda>t. SharedPtr_dtor t (set_var this temp s))"

text \<open>
  The constructors taking another handle, for a source that is a variable: the new handle
  becomes the next variable. The move constructor also writes the source.
\<close>

definition copy_ctor :: "nat \<Rightarrow> state \<Rightarrow> error + state" where
  "copy_ctor other s =
     and_then (var s other) (\<lambda>src.
     and_then (SharedPtr_copy src s) (\<lambda>(h, s'). Inr (push_var h s')))"

definition move_ctor :: "nat \<Rightarrow> state \<Rightarrow> error + state" where
  "move_ctor other s =
     and_then (var s other) (\<lambda>src.
       case SharedPtr_move src of (h, src') \<Rightarrow> Inr (push_var h (set_var other src' s)))"

definition alias_ctor :: "nat \<Rightarrow> ptr \<Rightarrow> state \<Rightarrow> error + state" where
  "alias_ctor other p s =
     and_then (var s other) (\<lambda>src.
     and_then (SharedPtr_alias src p s) (\<lambda>(h, s'). Inr (push_var h s')))"

text \<open>
  \<^verbatim>\<open>operator=(const SharedPtr& other)\<close> is \<^verbatim>\<open>SharedPtr<T>(other).Swap(*this)\<close>, and
  \<^verbatim>\<open>operator=(SharedPtr&& other)\<close> is \<^verbatim>\<open>SharedPtr<T>(std::move(other)).Swap(*this)\<close>:
  the move constructor empties \<open>other\<close> before \<open>*this\<close> is read, which matters when they
  are the same variable.
\<close>

definition copy_assign :: "nat \<Rightarrow> nat \<Rightarrow> state \<Rightarrow> error + state" where
  "copy_assign this other s =
     and_then (var s other) (\<lambda>src.
     and_then (SharedPtr_copy src s) (\<lambda>(temp, s'). temp_Swap temp this s'))"

definition move_assign :: "nat \<Rightarrow> nat \<Rightarrow> state \<Rightarrow> error + state" where
  "move_assign this other s =
     and_then (var s other) (\<lambda>src.
       case SharedPtr_move src of (temp, src') \<Rightarrow> temp_Swap temp this (set_var other src' s))"

text \<open>
  \<^verbatim>\<open>Reset()\<close> is \<^verbatim>\<open>SharedPtr().Swap(*this)\<close> and \<^verbatim>\<open>Reset(ptr)\<close> is
  \<^verbatim>\<open>SharedPtr<T>(ptr).Swap(*this)\<close>.
\<close>

definition Reset :: "nat \<Rightarrow> state \<Rightarrow> error + state" where
  "Reset this s = temp_Swap SharedPtr_default this s"

definition Reset_ptr :: "nat \<Rightarrow> ptr \<Rightarrow> state \<Rightarrow> error + state" where
  "Reset_ptr this p s = (case SharedPtr_ptr p s of (temp, s') \<Rightarrow> temp_Swap temp this s')"

text \<open>The lifetime of a variable ends: its destructor runs.\<close>

definition destroy :: "nat \<Rightarrow> state \<Rightarrow> error + state" where
  "destroy v s =
     and_then (var s v) (\<lambda>h.
     and_then (SharedPtr_dtor h s) (\<lambda>s'. Inr (s'\<lparr>vars := (vars s')[v := None]\<rparr>)))"

text \<open>
  A client program is a list of operations. A constructor declares the next variable;
  every other operation names variables that exist.
\<close>

datatype op =
    Default_ctor
  | Nullptr_ctor
  | Ptr_ctor ptr
  | Make_shared ctor_result
  | Copy_ctor nat
  | Move_ctor nat
  | Alias_ctor nat ptr
  | Copy_assign nat nat
  | Move_assign nat nat
  | Reset_op nat
  | Reset_ptr_op nat ptr
  | Swap_op nat nat
  | Destroy nat

fun exec :: "op \<Rightarrow> state \<Rightarrow> error + state" where
  "exec Default_ctor s = Inr (push_var SharedPtr_default s)"
| "exec Nullptr_ctor s = Inr (push_var SharedPtr_nullptr s)"
| "exec (Ptr_ctor p) s = (case SharedPtr_ptr p s of (h, s') \<Rightarrow> Inr (push_var h s'))"
| "exec (Make_shared r) s =
     and_then (MakeShared r s) (\<lambda>(out, s').
       case out of Return h \<Rightarrow> Inr (push_var h s') | Throw \<Rightarrow> Inl Exception_propagated)"
| "exec (Copy_ctor other) s = copy_ctor other s"
| "exec (Move_ctor other) s = move_ctor other s"
| "exec (Alias_ctor other p) s = alias_ctor other p s"
| "exec (Copy_assign this other) s = copy_assign this other s"
| "exec (Move_assign this other) s = move_assign this other s"
| "exec (Reset_op this) s = Reset this s"
| "exec (Reset_ptr_op this p) s = Reset_ptr this p s"
| "exec (Swap_op this other) s = Swap this other s"
| "exec (Destroy v) s = destroy v s"

fun run :: "op list \<Rightarrow> state \<Rightarrow> error + state" where
  "run [] s = Inr s"
| "run (x # xs) s = and_then (exec x s) (run xs)"

text \<open>Reading a variable of the final state of a run.\<close>

definition UseCount_of :: "nat \<Rightarrow> state \<Rightarrow> error + size_t" where
  "UseCount_of v s = and_then (var s v) (\<lambda>h. UseCount h s)"

subsection \<open>UniquePtr\<close>

text \<open>
  \<^verbatim>\<open>UniquePtr<T, Deleter>\<close> holds \<^verbatim>\<open>raw_ptr_\<close> and \<^verbatim>\<open>del_\<close>. A call
  \<^verbatim>\<open>GetDeleter()(p)\<close> is logged with the deleter and its argument. The array
  specialization has the same text for the members modelled here.
\<close>

record 'd unique_ptr =
  up_raw_ptr :: ptr
  up_del :: 'd

type_synonym 'd deleter_log = "('d \<times> ptr) list"

definition UniquePtr_Get :: "'d unique_ptr \<Rightarrow> ptr" where
  "UniquePtr_Get u = up_raw_ptr u"

definition GetDeleter :: "'d unique_ptr \<Rightarrow> 'd" where
  "GetDeleter u = up_del u"

definition Release :: "'d unique_ptr \<Rightarrow> 'd deleter_log \<Rightarrow> ptr \<times> 'd unique_ptr \<times> 'd deleter_log" where
  "Release u lg =
     (let res_ptr = UniquePtr_Get u
      in (res_ptr, u\<lparr>up_raw_ptr := nullptr\<rparr>, lg))"

definition UniquePtr_Reset :: "ptr \<Rightarrow> 'd unique_ptr \<Rightarrow> 'd deleter_log \<Rightarrow> 'd unique_ptr \<times> 'd deleter_log" where
  "UniquePtr_Reset p u lg =
     (let old = up_raw_ptr u; u' = u\<lparr>up_raw_ptr := p\<rparr>
      in if old \<noteq> nullptr then (u', lg @ [(GetDeleter u', old)]) else (u', lg))"

definition UniquePtr_dtor :: "'d unique_ptr \<Rightarrow> 'd deleter_log \<Rightarrow> 'd unique_ptr \<times> 'd deleter_log" where
  "UniquePtr_dtor u lg =
     (if up_raw_ptr u \<noteq> nullptr
      then (u\<lparr>up_raw_ptr := nullptr\<rparr>, lg @ [(GetDeleter u, up_raw_ptr u)])
      else (u, lg))"

section \<open>Counting owners and destructor runs\<close>

definition owns :: "nat \<Rightarrow> shared_ptr option \<Rightarrow> bool" where
  "owns a x = (case x of None \<Rightarrow> False | Some h \<Rightarrow> p_ctrl_block h = Some a)"

definition owners :: "nat \<Rightarrow> shared_ptr option list \<Rightarrow> nat" where
  "owners a vs = length (filter (owns a) vs)"

fun destroys_payload :: "nat \<Rightarrow> event \<Rightarrow> bool" where
  "destroys_payload a (Delete_p_obj b p) = (a = b)"
| "destroys_payload a (Destroy_holder b) = (a = b)"
| "destroys_payload a (New b) = False"
| "destroys_payload a (Construct b) = False"
| "destroys_payload a (Delete_this b) = False"

definition payload_dtor_runs :: "nat \<Rightarrow> event list \<Rightarrow> nat" where
  "payload_dtor_runs a tr = length (filter (destroys_payload a) tr)"

definition allocations :: "event list \<Rightarrow> nat" where
  "allocations tr = length (filter (\<lambda>e. case e of New a \<Rightarrow> True | _ \<Rightarrow> False) tr)"

text \<open>The event that \<^verbatim>\<open>OnZeroShared\<close> of the block \<open>b\<close> at address \<open>a\<close> produces.\<close>

definition OnZeroShared_event :: "nat \<Rightarrow> control_block \<Rightarrow> event" where
  "OnZeroShared_event a b =
     (case derived b of
        ControlBlockPtr p \<Rightarrow> Delete_p_obj a p
      | ControlBlockMakeShared \<Rightarrow> Destroy_holder a)"

text \<open>The largest value of \<^verbatim>\<open>size_t\<close>.\<close>

definition SIZE_MAX :: nat where
  "SIZE_MAX = 2 ^ 64 - 1"

text \<open>
  The bookkeeping of the block at address \<open>a\<close> is right for \<open>k\<close> owners: a live block
  counts \<open>k > 0\<close> owners, has no weak owner (nothing in the code increments
  \<^verbatim>\<open>weak_cnt_\<close>) and its payload has not been destroyed; an address without a live block
  has no owner, and its payload was destroyed once if the address was ever allocated.
\<close>

definition good :: "nat \<Rightarrow> nat \<Rightarrow> state \<Rightarrow> bool" where
  "good a k s =
     (case block_at s a of
        None \<Rightarrow> k = 0 \<and> payload_dtor_runs a (trace s) = (if a < length (blocks s) then 1 else 0)
      | Some b \<Rightarrow> unat (shared_cnt b) = k \<and> 0 < k \<and> weak_cnt b = 0 \<and>
                  payload_dtor_runs a (trace s) = 0)"

definition own :: "shared_ptr \<Rightarrow> nat \<Rightarrow> nat" where
  "own h a = (if p_ctrl_block h = Some a then 1 else 0)"

definition consistent :: "state \<Rightarrow> bool" where
  "consistent s = (\<forall>a. good a (owners a (vars s)) s)"

text \<open>Blocks are only ever added and events only ever appended.\<close>

definition extends :: "state \<Rightarrow> state \<Rightarrow> bool" where
  "extends s s' = (length (blocks s) \<le> length (blocks s') \<and> (\<exists>tr. trace s' = trace s @ tr))"

text \<open>The pointers that an operation of the client passes to the library.\<close>

fun ptr_args :: "op \<Rightarrow> ptr list" where
  "ptr_args (Ptr_ctor p) = [p]"
| "ptr_args (Alias_ctor v p) = [p]"
| "ptr_args (Reset_ptr_op v p) = [p]"
| "ptr_args x = []"

definition all_handles :: "(shared_ptr \<Rightarrow> bool) \<Rightarrow> state \<Rightarrow> bool" where
  "all_handles P s = (\<forall>h. Some h \<in> set (vars s) \<longrightarrow> P h)"

lemmas model_defs =
  init_def and_then_def block_at_def new_block_def new_ControlBlockPtr_def
  new_ControlBlockMakeShared_def IncrSharedCount_def GetSharedCount_def OnZeroShared_def
  OnZeroWeak_def DecrSharedCount_def SharedPtr_default_def SharedPtr_nullptr_def
  SharedPtr_ptr_def Get_def operator_bool_def SharedPtr_copy_def SharedPtr_move_def
  SharedPtr_alias_def SharedPtr_dtor_def UseCount_def MakeShared_def var_def push_var_def
  set_var_def Swap_def temp_Swap_def copy_ctor_def move_ctor_def alias_ctor_def
  copy_assign_def move_assign_def Reset_def Reset_ptr_def destroy_def UseCount_of_def
  owns_def owners_def payload_dtor_runs_def allocations_def Let_def

section \<open>Basic facts\<close>

lemma and_then_Inr: "and_then m f = Inr y \<longleftrightarrow> (\<exists>x. m = Inr x \<and> f x = Inr y)"
  by (cases m) (auto simp: and_then_def)

lemma and_then_Inr_simp [simp]: "and_then (Inr x) f = f x"
  by (simp add: and_then_def)

lemma block_at_blocks_update [simp]:
  "block_at (s\<lparr>blocks := (blocks s)[a := x]\<rparr>) a' =
     (if a' = a \<and> a < length (blocks s) then x else block_at s a')"
  by (simp add: block_at_def)

lemma block_at_trace_update [simp]: "block_at (s\<lparr>trace := t\<rparr>) a = block_at s a"
  by (simp add: block_at_def)

lemma block_at_vars_update [simp]: "block_at (s\<lparr>vars := t\<rparr>) a = block_at s a"
  by (simp add: block_at_def)

lemma block_at_push_var [simp]: "block_at (push_var h s) a = block_at s a"
  by (simp add: push_var_def)

lemma block_at_set_var [simp]: "block_at (set_var v h s) a = block_at s a"
  by (simp add: set_var_def)

lemma block_at_Some_less: "block_at s a = Some b \<Longrightarrow> a < length (blocks s)"
  by (simp add: block_at_def split: if_splits)

lemma vars_push_var [simp]: "vars (push_var h s) = vars s @ [Some h]"
  by (simp add: push_var_def)

lemma vars_set_var [simp]: "vars (set_var v h s) = (vars s)[v := Some h]"
  by (simp add: set_var_def)

lemma var_Inr: "var s v = Inr h \<longleftrightarrow> v < length (vars s) \<and> vars s ! v = Some h"
  by (auto simp: var_def split: option.splits)

lemma shared_ptr_eta [simp]: "\<lparr>p_ctrl_block = p_ctrl_block h, raw_ptr = raw_ptr h\<rparr> = h"
  by (cases h) simp

lemma SharedPtr_move_eq:
  "SharedPtr_move src = (src, \<lparr>p_ctrl_block = None, raw_ptr = nullptr\<rparr>)"
  by (simp add: SharedPtr_move_def)

lemma word_pred_eq_0: "(c :: size_t) - 1 = 0 \<longleftrightarrow> c = 1"
  by auto

lemma DecrSharedCount_eq:
  assumes "block_at s a = Some b"
  shows "DecrSharedCount a s =
     Inr (if shared_cnt b = 1
          then (if weak_cnt b = 0
                then s\<lparr>blocks := (blocks s)[a := None],
                       trace := trace s @ [OnZeroShared_event a b, Delete_this a]\<rparr>
                else s\<lparr>blocks := (blocks s)[a := Some (b\<lparr>shared_cnt := 0\<rparr>)],
                       trace := trace s @ [OnZeroShared_event a b]\<rparr>)
          else s\<lparr>blocks := (blocks s)[a := Some (b\<lparr>shared_cnt := shared_cnt b - 1\<rparr>)]\<rparr>)"
  using assms block_at_Some_less [OF assms]
  by (auto simp: DecrSharedCount_def Let_def OnZeroShared_def OnZeroWeak_def and_then_def
      OnZeroShared_event_def word_pred_eq_0 split: derived.splits)

subsection \<open>What an operation leaves alone\<close>

lemma extends_refl [simp]: "extends s s"
  by (simp add: extends_def)

lemma extends_trans: "extends s s' \<Longrightarrow> extends s' s'' \<Longrightarrow> extends s s''"
  by (auto simp: extends_def)

lemma extends_vars_update [simp]:
  "extends s (s'\<lparr>vars := x\<rparr>) = extends s s'" "extends (s\<lparr>vars := x\<rparr>) s' = extends s s'"
  by (simp_all add: extends_def)

lemma extends_push_var [simp]:
  "extends s (push_var h s') = extends s s'" "extends (push_var h s) s' = extends s s'"
  by (simp_all add: push_var_def)

lemma extends_set_var [simp]:
  "extends s (set_var v h s') = extends s s'" "extends (set_var v h s) s' = extends s s'"
  by (simp_all add: set_var_def)

lemma IncrSharedCount_frame:
  "IncrSharedCount a s = Inr s' \<Longrightarrow> vars s' = vars s \<and> extends s s'"
  by (auto simp: IncrSharedCount_def extends_def split: option.splits)

lemma DecrSharedCount_frame:
  assumes "DecrSharedCount a s = Inr s'"
  shows "vars s' = vars s \<and> extends s s'"
proof (cases "block_at s a")
  case None
  with assms show ?thesis by (simp add: DecrSharedCount_def)
next
  case (Some b)
  from assms show ?thesis
    unfolding DecrSharedCount_eq [OF Some] by (auto simp: extends_def split: if_splits)
qed

lemma SharedPtr_dtor_frame:
  "SharedPtr_dtor h s = Inr s' \<Longrightarrow> vars s' = vars s \<and> extends s s'"
  using DecrSharedCount_frame by (auto simp: SharedPtr_dtor_def split: option.splits)

lemma SharedPtr_copy_frame:
  assumes "SharedPtr_copy src s = Inr (h, s')"
  shows "vars s' = vars s \<and> extends s s' \<and>
         h = (if operator_bool src then src else SharedPtr_default) \<and>
         (operator_bool src \<longrightarrow> p_ctrl_block src \<noteq> None)"
  using assms IncrSharedCount_frame
  by (auto simp: SharedPtr_copy_def SharedPtr_default_def and_then_Inr
      split: if_splits option.splits)

lemma SharedPtr_alias_frame:
  assumes "SharedPtr_alias src p s = Inr (h, s')"
  shows "vars s' = vars s \<and> extends s s' \<and>
         h = \<lparr>p_ctrl_block = p_ctrl_block src, raw_ptr = p\<rparr> \<and> p_ctrl_block src \<noteq> None"
  using assms IncrSharedCount_frame
  by (auto simp: SharedPtr_alias_def and_then_Inr split: option.splits)

lemma SharedPtr_ptr_frame:
  assumes "SharedPtr_ptr p s = (h, s')"
  shows "vars s' = vars s \<and> extends s s' \<and>
         h = \<lparr>p_ctrl_block = Some (length (blocks s)), raw_ptr = p\<rparr>"
  using assms by (auto simp: SharedPtr_ptr_def new_block_def extends_def)

lemma MakeShared_frame:
  assumes "MakeShared r s = Inr (out, s')"
  shows "vars s' = vars s \<and> extends s s' \<and>
         (out = Throw \<or>
          out = Return \<lparr>p_ctrl_block = Some (length (blocks s)),
                        raw_ptr = Holder (length (blocks s))\<rparr>)"
proof (cases r)
  case Constructed
  with assms show ?thesis
    by (auto simp: MakeShared_def new_block_def extends_def SharedPtr_default_def)
next
  case Ctor_throws
  let ?s1 = "s\<lparr>blocks := blocks s @ [Some new_ControlBlockMakeShared],
               trace := trace s @ [New (length (blocks s))]\<rparr>"
  from assms Ctor_throws obtain s2 where
    "SharedPtr_dtor (SharedPtr_default\<lparr>p_ctrl_block := Some (length (blocks s))\<rparr>) ?s1 = Inr s2"
    "out = Throw" "s' = s2"
    by (auto simp: MakeShared_def new_block_def and_then_Inr)
  moreover have "extends s ?s1" by (simp add: extends_def)
  ultimately show ?thesis
    using SharedPtr_dtor_frame extends_trans by fastforce
qed

lemma temp_Swap_frame:
  assumes "temp_Swap temp this s = Inr s'"
  shows "this < length (vars s) \<and> vars s' = (vars s)[this := Some temp] \<and> extends s s'"
proof -
  from assms obtain old where old: "var s this = Inr old"
    "SharedPtr_dtor old (set_var this temp s) = Inr s'"
    by (auto simp: temp_Swap_def and_then_Inr)
  from SharedPtr_dtor_frame [OF old(2)] old(1) show ?thesis
    by (simp add: var_Inr)
qed

section \<open>Reference counts equal the number of owners\<close>

lemma runs_append [simp]:
  "payload_dtor_runs a (tr @ tr') = payload_dtor_runs a tr + payload_dtor_runs a tr'"
  by (simp add: payload_dtor_runs_def)

lemma runs_Nil [simp]: "payload_dtor_runs a [] = 0"
  by (simp add: payload_dtor_runs_def)

lemma runs_Cons [simp]:
  "payload_dtor_runs a (e # tr) = (if destroys_payload a e then 1 else 0) + payload_dtor_runs a tr"
  by (simp add: payload_dtor_runs_def)

lemma destroys_payload_OnZeroShared_event [simp]:
  "destroys_payload a' (OnZeroShared_event a b) = (a' = a)"
  by (simp add: OnZeroShared_event_def split: derived.splits)

lemma owners_Nil [simp]: "owners a [] = 0"
  by (simp add: owners_def)

lemma owners_snoc [simp]: "owners a (vs @ [Some h]) = owners a vs + own h a"
  by (simp add: owners_def owns_def own_def)

lemma owners_update:
  "v < length vs \<Longrightarrow>
   owners a (vs[v := x]) + (if owns a (vs ! v) then 1 else 0) =
   owners a vs + (if owns a x then 1 else 0)"
proof (induction vs arbitrary: v)
  case Nil
  then show ?case by simp
next
  case (Cons y ys)
  show ?case
  proof (cases v)
    case 0
    then show ?thesis by (simp add: owners_def)
  next
    case (Suc n)
    with Cons.prems have "n < length ys" by simp
    from Cons.IH [OF this] Suc show ?thesis by (simp add: owners_def)
  qed
qed

lemma owners_update_Some:
  "v < length vs \<Longrightarrow> vs ! v = Some t \<Longrightarrow>
   owners a (vs[v := Some h]) + own t a = owners a vs + own h a"
  using owners_update [of v vs a "Some h"] by (simp add: owns_def own_def)

lemma owners_update_None:
  "v < length vs \<Longrightarrow> vs ! v = Some t \<Longrightarrow>
   owners a (vs[v := None]) + own t a = owners a vs"
  using owners_update [of v vs a None] by (simp add: owns_def own_def)

lemma owners_le_length: "owners a vs \<le> length vs"
  by (simp add: owners_def)

lemma owners_pos:
  "v < length vs \<Longrightarrow> vs ! v = Some h \<Longrightarrow> p_ctrl_block h = Some a \<Longrightarrow> 0 < owners a vs"
  using owners_update_None [of v vs h a] by (simp add: own_def)

lemma owners_two:
  assumes "v < length vs" "vs ! v = Some h" "p_ctrl_block h = Some a"
    and "w < length vs" "vs ! w = Some h'" "p_ctrl_block h' = Some a" and "v \<noteq> w"
  shows "2 \<le> owners a vs"
proof -
  have "owners a (vs[v := None]) + 1 = owners a vs"
    using owners_update_None [OF assms(1,2), of a] assms(3) by (simp add: own_def)
  moreover have "0 < owners a (vs[v := None])"
    using assms by (intro owners_pos [of w _ h']) simp_all
  ultimately show ?thesis by simp
qed

lemma own_empty [simp]:
  "own SharedPtr_default a = 0"
  "own SharedPtr_nullptr a = 0"
  "own \<lparr>p_ctrl_block = None, raw_ptr = p\<rparr> a = 0"
  by (simp_all add: own_def SharedPtr_default_def SharedPtr_nullptr_def)

lemma good_vars_update [simp]: "good a k (s\<lparr>vars := x\<rparr>) = good a k s"
  by (simp add: good_def split: option.splits)

lemma good_push_var [simp]: "good a k (push_var h s) = good a k s"
  by (simp add: push_var_def)

lemma good_set_var [simp]: "good a k (set_var v h s) = good a k s"
  by (simp add: set_var_def)

lemma good_trace_Construct [simp]:
  "good a k (s\<lparr>trace := trace s @ [Construct b]\<rparr>) = good a k s"
  by (simp add: good_def cong: option.case_cong)

lemma good_fresh: "good (length (blocks s)) k s \<Longrightarrow> k = 0"
  by (simp add: good_def block_at_def)

lemma good_live: "good a k s \<Longrightarrow> 0 < k \<Longrightarrow> \<exists>b. block_at s a = Some b \<and> unat (shared_cnt b) = k"
  by (auto simp: good_def split: option.splits)


lemma IncrSharedCount_good:
  assumes "good a k s" and "0 < k" and "k < SIZE_MAX"
  shows "\<exists>s'. IncrSharedCount a s = Inr s' \<and> vars s' = vars s \<and> good a (Suc k) s' \<and>
           (\<forall>a' k'. a' \<noteq> a \<longrightarrow> good a' k' s' = good a' k' s)"
proof -
  from assms(1,2) obtain b where b: "block_at s a = Some b" "unat (shared_cnt b) = k"
    "weak_cnt b = 0" "payload_dtor_runs a (trace s) = 0"
    by (auto simp: good_def split: option.splits)
  have lt: "a < length (blocks s)" using b(1) by (rule block_at_Some_less)
  have "unat (shared_cnt b + 1) = Suc k"
    using b(2) assms(3) by (simp add: unat_word_ariths SIZE_MAX_def)
  then show ?thesis
    using b lt by (simp add: IncrSharedCount_def good_def cong: option.case_cong)
qed

lemma DecrSharedCount_good:
  assumes "good a (Suc k) s"
  shows "\<exists>s'. DecrSharedCount a s = Inr s' \<and> vars s' = vars s \<and> good a k s' \<and>
           (\<forall>a' k'. a' \<noteq> a \<longrightarrow> good a' k' s' = good a' k' s)"
proof -
  from assms obtain b where b: "block_at s a = Some b" "unat (shared_cnt b) = Suc k"
    "weak_cnt b = 0" "payload_dtor_runs a (trace s) = 0"
    by (auto simp: good_def split: option.splits)
  have lt: "a < length (blocks s)" using b(1) by (rule block_at_Some_less)
  have ne: "shared_cnt b \<noteq> 0" using b(2) by auto
  have one: "shared_cnt b = 1 \<longleftrightarrow> k = 0"
    using b(2) by (simp add: word_unat_eq_iff)
  have "unat (shared_cnt b - 1) = k"
    using b(2) ne by (simp add: unat_minus_one)
  then show ?thesis
    using b lt one by (simp add: DecrSharedCount_eq [OF b(1)] good_def cong: option.case_cong)
qed

lemma new_block_good:
  assumes "good (length (blocks s)) k s" and "weak_cnt b = 0" and "shared_cnt b = 1"
    and "new_block b s = (a, s')"
  shows "a = length (blocks s) \<and> vars s' = vars s \<and> good a 1 s' \<and>
           (\<forall>a' k'. a' \<noteq> a \<longrightarrow> good a' k' s' = good a' k' s)"
  using assms
  by (auto simp: new_block_def good_def block_at_def nth_append cong: option.case_cong)

lemma SharedPtr_dtor_good:
  assumes "\<forall>a. good a (K a + own h a) s"
  shows "\<exists>s'. SharedPtr_dtor h s = Inr s' \<and> vars s' = vars s \<and> (\<forall>a. good a (K a) s')"
proof (cases "p_ctrl_block h")
  case None
  with assms show ?thesis by (simp add: SharedPtr_dtor_def own_def)
next
  case (Some a)
  from assms have "good a (K a + own h a) s" by blast
  with Some have "good a (Suc (K a)) s" by (simp add: own_def)
  from DecrSharedCount_good [OF this] obtain s' where s':
    "DecrSharedCount a s = Inr s'" "vars s' = vars s" "good a (K a) s'"
    "\<forall>a' k'. a' \<noteq> a \<longrightarrow> good a' k' s' = good a' k' s"
    by blast
  have "good a' (K a') s'" for a'
  proof (cases "a' = a")
    case True
    with s'(3) show ?thesis by simp
  next
    case False
    from assms have "good a' (K a' + own h a') s" by blast
    with False Some s'(4) show ?thesis by (simp add: own_def)
  qed
  with s' Some show ?thesis by (simp add: SharedPtr_dtor_def)
qed

lemma incr_good_all:
  assumes "\<forall>a. good a (K a) s" and "0 < K a" and "K a < SIZE_MAX"
  shows "\<exists>s'. IncrSharedCount a s = Inr s' \<and> vars s' = vars s \<and>
           (\<forall>h. p_ctrl_block h = Some a \<longrightarrow> (\<forall>a'. good a' (K a' + own h a') s'))"
proof -
  from assms have "good a (K a) s" by simp
  from IncrSharedCount_good [OF this assms(2,3)] obtain s' where s':
    "IncrSharedCount a s = Inr s'" "vars s' = vars s" "good a (Suc (K a)) s'"
    "\<forall>a' k'. a' \<noteq> a \<longrightarrow> good a' k' s' = good a' k' s"
    by blast
  have "good a' (K a' + own h a') s'" if "p_ctrl_block h = Some a" for h a'
  proof (cases "a' = a")
    case True
    with s'(3) that show ?thesis by (simp add: own_def)
  next
    case False
    with s'(4) assms(1) that show ?thesis by (simp add: own_def)
  qed
  with s' show ?thesis by blast
qed

lemma SharedPtr_copy_good:
  assumes "\<forall>a. good a (K a) s"
    and "\<forall>a. p_ctrl_block src = Some a \<longrightarrow> 0 < K a \<and> K a < SIZE_MAX"
    and "operator_bool src \<longrightarrow> p_ctrl_block src \<noteq> None"
  shows "\<exists>h s'. SharedPtr_copy src s = Inr (h, s') \<and> (\<forall>a. good a (K a + own h a) s')"
proof (cases "operator_bool src")
  case False
  with assms(1) show ?thesis by (simp add: SharedPtr_copy_def)
next
  case True
  with assms(3) obtain a where a: "p_ctrl_block src = Some a" by auto
  with assms(2) have "0 < K a" "K a < SIZE_MAX" by auto
  from incr_good_all [OF assms(1) this] obtain s1 where
    "IncrSharedCount a s = Inr s1"
    "\<forall>h. p_ctrl_block h = Some a \<longrightarrow> (\<forall>a'. good a' (K a' + own h a') s1)"
    by blast
  with a True show ?thesis by (simp add: SharedPtr_copy_def)
qed

lemma SharedPtr_alias_good:
  assumes "\<forall>a. good a (K a) s"
    and "\<forall>a. p_ctrl_block src = Some a \<longrightarrow> 0 < K a \<and> K a < SIZE_MAX"
    and "p_ctrl_block src \<noteq> None"
  shows "\<exists>h s'. SharedPtr_alias src p s = Inr (h, s') \<and> (\<forall>a. good a (K a + own h a) s')"
proof -
  from assms(3) obtain a where a: "p_ctrl_block src = Some a" by auto
  with assms(2) have "0 < K a" "K a < SIZE_MAX" by auto
  from incr_good_all [OF assms(1) this] obtain s1 where
    "IncrSharedCount a s = Inr s1"
    "\<forall>h. p_ctrl_block h = Some a \<longrightarrow> (\<forall>a'. good a' (K a' + own h a') s1)"
    by blast
  with a show ?thesis by (simp add: SharedPtr_alias_def)
qed

lemma new_block_good_all:
  assumes "\<forall>a. good a (K a) s" and "weak_cnt b = 0" and "shared_cnt b = 1"
    and "new_block b s = (a, s')"
  shows "\<forall>h. p_ctrl_block h = Some a \<longrightarrow> (\<forall>a'. good a' (K a' + own h a') s')"
proof -
  from assms(1) have g: "good (length (blocks s)) (K (length (blocks s))) s" by simp
  then have z: "K (length (blocks s)) = 0" by (rule good_fresh)
  from new_block_good [OF g assms(2,3,4)] have n: "a = length (blocks s)"
    "good a 1 s'" "\<forall>a' k'. a' \<noteq> a \<longrightarrow> good a' k' s' = good a' k' s"
    by blast+
  have "good a' (K a' + own h a') s'" if "p_ctrl_block h = Some a" for h a'
  proof (cases "a' = a")
    case True
    with n(1,2) z that show ?thesis by (simp add: own_def)
  next
    case False
    with n(3) assms(1) that show ?thesis by (simp add: own_def)
  qed
  then show ?thesis by blast
qed

lemma SharedPtr_ptr_good:
  assumes "\<forall>a. good a (K a) s" and "SharedPtr_ptr p s = (h, s')"
  shows "\<forall>a. good a (K a + own h a) s'"
proof -
  obtain a s1 where n: "new_block (new_ControlBlockPtr p) s = (a, s1)" by force
  from new_block_good_all [OF assms(1) _ _ n]
  have "\<forall>h. p_ctrl_block h = Some a \<longrightarrow> (\<forall>a'. good a' (K a' + own h a') s1)"
    by (simp add: new_ControlBlockPtr_def)
  with n assms(2) show ?thesis by (auto simp: SharedPtr_ptr_def)
qed

lemma MakeShared_Constructed_good:
  assumes "\<forall>a. good a (K a) s"
  shows "\<exists>h s'. MakeShared Constructed s = Inr (Return h, s') \<and>
           (\<forall>a. good a (K a + own h a) s')"
proof -
  obtain a s1 where n: "new_block new_ControlBlockMakeShared s = (a, s1)" by force
  from new_block_good_all [OF assms(1) _ _ n]
  have "\<forall>h. p_ctrl_block h = Some a \<longrightarrow> (\<forall>a'. good a' (K a' + own h a') s1)"
    by (simp add: new_ControlBlockMakeShared_def)
  with n show ?thesis by (simp add: MakeShared_def SharedPtr_default_def)
qed

section \<open>The operations of a client, one by one\<close>

subsection \<open>Which variables an operation writes\<close>

lemma Ptr_ctor_frame:
  assumes "exec (Ptr_ctor p) s = Inr s'"
  shows "vars s' = vars s @ [Some \<lparr>p_ctrl_block = Some (length (blocks s)), raw_ptr = p\<rparr>] \<and>
         extends s s'"
proof -
  obtain h s1 where c: "SharedPtr_ptr p s = (h, s1)" by force
  from SharedPtr_ptr_frame [OF c] c assms show ?thesis by auto
qed

lemma Make_shared_frame:
  assumes "exec (Make_shared r) s = Inr s'"
  shows "vars s' = vars s @ [Some \<lparr>p_ctrl_block = Some (length (blocks s)),
                                  raw_ptr = Holder (length (blocks s))\<rparr>] \<and>
         extends s s' \<and> r = Constructed"
proof -
  from assms obtain out s1 where o: "MakeShared r s = Inr (out, s1)"
    "(case out of Return h \<Rightarrow> Inr (push_var h s1) | Throw \<Rightarrow> Inl Exception_propagated) = Inr s'"
    by (auto simp: and_then_Inr)
  then obtain h where m: "out = Return h" "s' = push_var h s1"
    by (cases out) auto
  have "r = Constructed"
  proof (cases r)
    case Ctor_throws
    with o(1) m(1) show ?thesis
      by (auto simp: MakeShared_def and_then_Inr split: prod.splits)
  qed simp
  with MakeShared_frame [OF o(1)] m show ?thesis by auto
qed

lemma copy_ctor_frame:
  assumes "copy_ctor other s = Inr s'"
  shows "\<exists>src. var s other = Inr src \<and> (operator_bool src \<longrightarrow> p_ctrl_block src \<noteq> None) \<and>
           vars s' = vars s @ [Some (if operator_bool src then src else SharedPtr_default)] \<and>
           extends s s'"
proof -
  from assms obtain src h s1 where c: "var s other = Inr src"
    "SharedPtr_copy src s = Inr (h, s1)" "s' = push_var h s1"
    by (auto simp: copy_ctor_def and_then_Inr)
  from SharedPtr_copy_frame [OF c(2)] c(1,3) show ?thesis by auto
qed

lemma move_ctor_frame:
  assumes "move_ctor other s = Inr s'"
  shows "\<exists>src. var s other = Inr src \<and>
           s' = push_var src (set_var other \<lparr>p_ctrl_block = None, raw_ptr = nullptr\<rparr> s)"
  using assms by (auto simp: move_ctor_def and_then_Inr SharedPtr_move_eq)

lemma alias_ctor_frame:
  assumes "alias_ctor other p s = Inr s'"
  shows "\<exists>src. var s other = Inr src \<and> p_ctrl_block src \<noteq> None \<and>
           vars s' = vars s @ [Some \<lparr>p_ctrl_block = p_ctrl_block src, raw_ptr = p\<rparr>] \<and>
           extends s s'"
proof -
  from assms obtain src h s1 where c: "var s other = Inr src"
    "SharedPtr_alias src p s = Inr (h, s1)" "s' = push_var h s1"
    by (auto simp: alias_ctor_def and_then_Inr)
  from SharedPtr_alias_frame [OF c(2)] c(1,3) show ?thesis by auto
qed

lemma copy_assign_frame:
  assumes "copy_assign this other s = Inr s'"
  shows "\<exists>src. var s other = Inr src \<and> (operator_bool src \<longrightarrow> p_ctrl_block src \<noteq> None) \<and>
           this < length (vars s) \<and>
           vars s' = (vars s)[this := Some (if operator_bool src then src else SharedPtr_default)] \<and>
           extends s s'"
proof -
  from assms obtain src temp s1 where c: "var s other = Inr src"
    "SharedPtr_copy src s = Inr (temp, s1)" "temp_Swap temp this s1 = Inr s'"
    by (auto simp: copy_assign_def and_then_Inr)
  from SharedPtr_copy_frame [OF c(2)] temp_Swap_frame [OF c(3)] c(1) extends_trans
  show ?thesis by auto
qed

lemma move_assign_frame:
  assumes "move_assign this other s = Inr s'"
  shows "\<exists>src. var s other = Inr src \<and> this < length (vars s) \<and>
           vars s' = (vars s)[other := Some \<lparr>p_ctrl_block = None, raw_ptr = nullptr\<rparr>,
                                this := Some src] \<and>
           extends s s'"
proof -
  let ?e = "\<lparr>p_ctrl_block = None, raw_ptr = nullptr\<rparr>"
  from assms obtain src where c: "var s other = Inr src"
    "temp_Swap src this (set_var other ?e s) = Inr s'"
    by (auto simp: move_assign_def and_then_Inr SharedPtr_move_eq)
  from temp_Swap_frame [OF c(2)] c(1) show ?thesis by simp
qed

lemma Reset_frame:
  assumes "Reset this s = Inr s'"
  shows "this < length (vars s) \<and> vars s' = (vars s)[this := Some SharedPtr_default] \<and>
         extends s s'"
  using temp_Swap_frame [of SharedPtr_default this s s'] assms by (simp add: Reset_def)

lemma Reset_ptr_frame:
  assumes "Reset_ptr this p s = Inr s'"
  shows "this < length (vars s) \<and>
         vars s' = (vars s)[this := Some \<lparr>p_ctrl_block = Some (length (blocks s)), raw_ptr = p\<rparr>] \<and>
         extends s s'"
proof -
  obtain temp s1 where c: "SharedPtr_ptr p s = (temp, s1)" by force
  with assms have t: "temp_Swap temp this s1 = Inr s'" by (simp add: Reset_ptr_def)
  from SharedPtr_ptr_frame [OF c] temp_Swap_frame [OF t] extends_trans show ?thesis by auto
qed

lemma Swap_frame:
  assumes "Swap this other s = Inr s'"
  shows "\<exists>t src. var s this = Inr t \<and> var s other = Inr src \<and>
           s' = set_var other t (set_var this src s)"
  using assms by (auto simp: Swap_def and_then_Inr)

lemma destroy_frame:
  assumes "destroy v s = Inr s'"
  shows "\<exists>h. var s v = Inr h \<and> vars s' = (vars s)[v := None] \<and> extends s s'"
proof -
  from assms obtain h s1 where c: "var s v = Inr h" "SharedPtr_dtor h s = Inr s1"
    "s' = s1\<lparr>vars := (vars s1)[v := None]\<rparr>"
    by (auto simp: destroy_def and_then_Inr)
  from SharedPtr_dtor_frame [OF c(2)] c(1,3) show ?thesis by simp
qed


subsection \<open>A property of handles that every operation keeps\<close>

lemma handles_update:
  "\<forall>h. Some h \<in> set vs \<longrightarrow> P h \<Longrightarrow> (\<And>h. x = Some h \<Longrightarrow> P h) \<Longrightarrow>
   \<forall>h. Some h \<in> set (vs[v := x]) \<longrightarrow> P h"
  by (metis insert_iff set_update_subset_insert subsetD)

lemma var_in_set: "var s v = Inr h \<Longrightarrow> Some h \<in> set (vars s)"
  by (metis nth_mem var_Inr)

lemma all_handles_var: "all_handles P s \<Longrightarrow> var s v = Inr h \<Longrightarrow> P h"
  using var_in_set by (auto simp: all_handles_def)

lemma all_handles_update:
  "all_handles P s \<Longrightarrow> (\<And>h. x = Some h \<Longrightarrow> P h) \<Longrightarrow> vars s' = (vars s)[v := x] \<Longrightarrow>
   all_handles P s'"
  unfolding all_handles_def using handles_update [of "vars s" P x v] by simp

lemma all_handles_snoc:
  "all_handles P s \<Longrightarrow> P h \<Longrightarrow> vars s' = vars s @ [Some h] \<Longrightarrow> all_handles P s'"
  by (auto simp: all_handles_def)

lemma exec_handles:
  assumes P: "all_handles P s"
    and e: "P \<lparr>p_ctrl_block = None, raw_ptr = nullptr\<rparr>"
    and p: "\<And>a p. p \<in> set (ptr_args x) \<Longrightarrow> P \<lparr>p_ctrl_block = Some a, raw_ptr = p\<rparr>"
    and m: "\<And>a. P \<lparr>p_ctrl_block = Some a, raw_ptr = Holder a\<rparr>"
    and x: "exec x s = Inr s'"
  shows "all_handles P s'"
proof (cases x)
  case Default_ctor
  with x have "vars s' = vars s @ [Some \<lparr>p_ctrl_block = None, raw_ptr = nullptr\<rparr>]"
    by (auto simp: SharedPtr_default_def)
  from all_handles_snoc [OF P e this] show ?thesis .
next
  case Nullptr_ctor
  with x have "vars s' = vars s @ [Some \<lparr>p_ctrl_block = None, raw_ptr = nullptr\<rparr>]"
    by (auto simp: SharedPtr_nullptr_def)
  from all_handles_snoc [OF P e this] show ?thesis .
next
  case (Ptr_ctor q)
  with x Ptr_ctor_frame [of q s s']
  have "vars s' = vars s @ [Some \<lparr>p_ctrl_block = Some (length (blocks s)), raw_ptr = q\<rparr>]"
    by simp
  from all_handles_snoc [OF P p this] Ptr_ctor show ?thesis by simp
next
  case (Make_shared r)
  with x Make_shared_frame [of r s s']
  have "vars s' = vars s @ [Some \<lparr>p_ctrl_block = Some (length (blocks s)),
                                    raw_ptr = Holder (length (blocks s))\<rparr>]"
    by simp
  from all_handles_snoc [OF P m this] show ?thesis .
next
  case (Copy_ctor v)
  with x copy_ctor_frame [of v s s'] obtain src where c: "var s v = Inr src"
    "vars s' = vars s @ [Some (if operator_bool src then src else SharedPtr_default)]"
    by auto
  from all_handles_var [OF P c(1)] e
  have "P (if operator_bool src then src else SharedPtr_default)"
    by (simp add: SharedPtr_default_def)
  from all_handles_snoc [OF P this c(2)] show ?thesis .
next
  case (Move_ctor v)
  let ?e = "\<lparr>p_ctrl_block = None, raw_ptr = nullptr\<rparr>"
  from Move_ctor x move_ctor_frame [of v s s'] obtain src where c: "var s v = Inr src"
    "s' = push_var src (set_var v ?e s)"
    by auto
  have "all_handles P (set_var v ?e s)"
    by (rule all_handles_update [OF P, of "Some ?e" _ v]) (use e in auto)
  from all_handles_snoc [OF this all_handles_var [OF P c(1)]] c(2) show ?thesis by simp
next
  case (Alias_ctor v q)
  with x alias_ctor_frame [of v q s s'] obtain src :: shared_ptr and a where
    c: "p_ctrl_block src = Some a"
    "vars s' = vars s @ [Some \<lparr>p_ctrl_block = p_ctrl_block src, raw_ptr = q\<rparr>]"
    by auto
  from Alias_ctor p [of q a] c(1)
  have "P \<lparr>p_ctrl_block = p_ctrl_block src, raw_ptr = q\<rparr>" by simp
  from all_handles_snoc [OF P this c(2)] show ?thesis .
next
  case (Copy_assign v w)
  with x copy_assign_frame [of v w s s'] obtain src where c: "var s w = Inr src"
    "vars s' = (vars s)[v := Some (if operator_bool src then src else SharedPtr_default)]"
    by auto
  from all_handles_var [OF P c(1)] e
  have "P (if operator_bool src then src else SharedPtr_default)"
    by (simp add: SharedPtr_default_def)
  then show ?thesis
    by (intro all_handles_update [OF P _ c(2)]) simp
next
  case (Move_assign v w)
  let ?e = "\<lparr>p_ctrl_block = None, raw_ptr = nullptr\<rparr>"
  from Move_assign x move_assign_frame [of v w s s'] obtain src where c: "var s w = Inr src"
    "vars s' = (vars s)[w := Some ?e, v := Some src]"
    by auto
  have 1: "all_handles P (set_var w ?e s)"
    by (rule all_handles_update [OF P, of "Some ?e" _ w]) (use e in auto)
  have 2: "vars s' = (vars (set_var w ?e s))[v := Some src]"
    using c(2) by simp
  show ?thesis
    by (rule all_handles_update [OF 1 _ 2]) (use all_handles_var [OF P c(1)] in simp)
next
  case (Reset_op v)
  with x Reset_frame [of v s s']
  have "vars s' = (vars s)[v := Some \<lparr>p_ctrl_block = None, raw_ptr = nullptr\<rparr>]"
    by (simp add: SharedPtr_default_def)
  then show ?thesis
    by (intro all_handles_update [OF P _]) (use e in auto)
next
  case (Reset_ptr_op v q)
  with x Reset_ptr_frame [of v q s s']
  have "vars s' = (vars s)[v := Some \<lparr>p_ctrl_block = Some (length (blocks s)), raw_ptr = q\<rparr>]"
    by simp
  then show ?thesis
    by (intro all_handles_update [OF P _]) (use p [of q] Reset_ptr_op in auto)
next
  case (Swap_op v w)
  with x Swap_frame [of v w s s'] obtain t src where c: "var s v = Inr t" "var s w = Inr src"
    "s' = set_var w t (set_var v src s)"
    by auto
  have 1: "all_handles P (set_var v src s)"
    by (rule all_handles_update [OF P, of "Some src" _ v])
      (use all_handles_var [OF P c(2)] in auto)
  show ?thesis
    unfolding c(3)
    by (rule all_handles_update [OF 1, of "Some t" _ w])
      (use all_handles_var [OF P c(1)] in auto)
next
  case (Destroy v)
  with x destroy_frame [of v s s'] have "vars s' = (vars s)[v := None]" by auto
  then show ?thesis
    by (intro all_handles_update [OF P _]) auto
qed

subsection \<open>Every operation keeps the counts right\<close>

lemma inv_good: "consistent s \<Longrightarrow> \<forall>a. good a (owners a (vars s)) s"
  by (simp add: consistent_def)

lemma inv_init: "consistent init"
  by (simp add: consistent_def init_def good_def block_at_def)

lemma owner_bounds:
  assumes "var s v = Inr h" and "length (vars s) < SIZE_MAX"
  shows "\<forall>a. p_ctrl_block h = Some a \<longrightarrow>
           0 < owners a (vars s) \<and> owners a (vars s) < SIZE_MAX"
  using assms owners_pos [of v "vars s" h] owners_le_length [of _ "vars s"]
  by (auto simp: var_Inr intro: le_less_trans)

lemma temp_Swap_ok:
  assumes g: "\<forall>a. good a (owners a (vars s) + own temp a) s" and v: "var s this = Inr old"
  shows "\<exists>s'. temp_Swap temp this s = Inr s' \<and> consistent s'"
proof -
  from v have l: "this < length (vars s)" "vars s ! this = Some old"
    by (simp_all add: var_Inr)
  let ?vs = "(vars s)[this := Some temp]"
  have eq: "owners a ?vs + own old a = owners a (vars s) + own temp a" for a
    using owners_update_Some [OF l] .
  have "\<forall>a. good a (owners a ?vs + own old a) (set_var this temp s)"
    using g by (simp add: eq)
  from SharedPtr_dtor_good [OF this] obtain s' where
    "SharedPtr_dtor old (set_var this temp s) = Inr s'" "vars s' = ?vs"
    "\<forall>a. good a (owners a ?vs) s'"
    by auto
  with v show ?thesis by (auto simp: temp_Swap_def consistent_def)
qed

lemma Default_ctor_ok: "consistent s \<Longrightarrow> consistent (push_var SharedPtr_default s)"
  by (simp add: consistent_def)

lemma Nullptr_ctor_ok: "consistent s \<Longrightarrow> consistent (push_var SharedPtr_nullptr s)"
  by (simp add: consistent_def)

lemma Ptr_ctor_ok:
  assumes "consistent s"
  shows "\<exists>s'. exec (Ptr_ctor p) s = Inr s' \<and> consistent s'"
proof -
  obtain h s1 where c: "SharedPtr_ptr p s = (h, s1)" by force
  from SharedPtr_ptr_good [OF inv_good [OF assms] c] SharedPtr_ptr_frame [OF c] c
  show ?thesis by (simp add: consistent_def)
qed

lemma Make_shared_ok:
  assumes "consistent s"
  shows "\<exists>s'. exec (Make_shared Constructed) s = Inr s' \<and> consistent s'"
proof -
  from MakeShared_Constructed_good [OF inv_good [OF assms]] obtain h s1 where
    m: "MakeShared Constructed s = Inr (Return h, s1)"
    "\<forall>a. good a (owners a (vars s) + own h a) s1"
    by blast
  from MakeShared_frame [OF m(1)] m show ?thesis by (simp add: consistent_def)
qed

lemma copy_ctor_ok:
  assumes "consistent s" and "length (vars s) < SIZE_MAX" and "var s other = Inr src"
    and "operator_bool src \<longrightarrow> p_ctrl_block src \<noteq> None"
  shows "\<exists>s'. copy_ctor other s = Inr s' \<and> consistent s'"
proof -
  from SharedPtr_copy_good [OF inv_good [OF assms(1)] owner_bounds [OF assms(3,2)] assms(4)]
  obtain h s1 where c: "SharedPtr_copy src s = Inr (h, s1)"
    "\<forall>a. good a (owners a (vars s) + own h a) s1"
    by blast
  from SharedPtr_copy_frame [OF c(1)] c assms(3) show ?thesis
    by (simp add: copy_ctor_def consistent_def)
qed

lemma alias_ctor_ok:
  assumes "consistent s" and "length (vars s) < SIZE_MAX" and "var s other = Inr src"
    and "p_ctrl_block src \<noteq> None"
  shows "\<exists>s'. alias_ctor other p s = Inr s' \<and> consistent s'"
proof -
  from SharedPtr_alias_good [OF inv_good [OF assms(1)] owner_bounds [OF assms(3,2)] assms(4)]
  obtain h s1 where c: "SharedPtr_alias src p s = Inr (h, s1)"
    "\<forall>a. good a (owners a (vars s) + own h a) s1"
    by blast
  from SharedPtr_alias_frame [OF c(1)] c assms(3) show ?thesis
    by (simp add: alias_ctor_def consistent_def)
qed

lemma owners_moved:
  assumes "var s other = Inr src"
  shows "owners a ((vars s)[other := Some \<lparr>p_ctrl_block = None, raw_ptr = nullptr\<rparr>]) + own src a =
         owners a (vars s)"
  using assms owners_update_Some [of other "vars s" src a "\<lparr>p_ctrl_block = None, raw_ptr = nullptr\<rparr>"]
  by (simp add: var_Inr)

lemma move_ctor_ok:
  assumes "consistent s" and "var s other = Inr src"
  shows "\<exists>s'. move_ctor other s = Inr s' \<and> consistent s'"
  using assms inv_good [OF assms(1)] owners_moved [OF assms(2)]
  by (simp add: move_ctor_def SharedPtr_move_eq consistent_def)

lemma copy_assign_ok:
  assumes "consistent s" and "length (vars s) < SIZE_MAX" and "var s other = Inr src"
    and "operator_bool src \<longrightarrow> p_ctrl_block src \<noteq> None" and "var s this = Inr old"
  shows "\<exists>s'. copy_assign this other s = Inr s' \<and> consistent s'"
proof -
  from SharedPtr_copy_good [OF inv_good [OF assms(1)] owner_bounds [OF assms(3,2)] assms(4)]
  obtain temp s1 where c: "SharedPtr_copy src s = Inr (temp, s1)"
    "\<forall>a. good a (owners a (vars s) + own temp a) s1"
    by blast
  from SharedPtr_copy_frame [OF c(1)] have v: "vars s1 = vars s" by simp
  with assms(5) have "var s1 this = Inr old" by (simp add: var_Inr)
  from temp_Swap_ok [OF _ this, of temp] c(2) v obtain s' where
    "temp_Swap temp this s1 = Inr s'" "consistent s'"
    by auto
  with c(1) assms(3) show ?thesis by (simp add: copy_assign_def)
qed

lemma move_assign_ok:
  assumes "consistent s" and "var s other = Inr src" and "var s this = Inr old"
  shows "\<exists>s'. move_assign this other s = Inr s' \<and> consistent s'"
proof -
  let ?e = "\<lparr>p_ctrl_block = None, raw_ptr = nullptr\<rparr>"
  obtain old' where o: "var (set_var other ?e s) this = Inr old'"
    using assms(3) by (cases "this = other") (auto simp: var_Inr)
  have "\<forall>a. good a (owners a (vars (set_var other ?e s)) + own src a) (set_var other ?e s)"
    using inv_good [OF assms(1)] owners_moved [OF assms(2)] by simp
  from temp_Swap_ok [OF this o] assms(2) show ?thesis
    by (simp add: move_assign_def SharedPtr_move_eq)
qed

lemma Reset_ok:
  assumes "consistent s" and "var s this = Inr old"
  shows "\<exists>s'. Reset this s = Inr s' \<and> consistent s'"
  using temp_Swap_ok [OF _ assms(2), of SharedPtr_default] inv_good [OF assms(1)]
  by (simp add: Reset_def)

lemma Reset_ptr_ok:
  assumes "consistent s" and "var s this = Inr old"
  shows "\<exists>s'. Reset_ptr this p s = Inr s' \<and> consistent s'"
proof -
  obtain temp s1 where c: "SharedPtr_ptr p s = (temp, s1)" by force
  from SharedPtr_ptr_frame [OF c] have v: "vars s1 = vars s" by simp
  with assms(2) have "var s1 this = Inr old" by (simp add: var_Inr)
  from temp_Swap_ok [OF _ this, of temp] SharedPtr_ptr_good [OF inv_good [OF assms(1)] c] v c
  show ?thesis by (simp add: Reset_ptr_def)
qed

lemma Swap_ok:
  assumes "consistent s" and "var s this = Inr t" and "var s other = Inr src"
  shows "\<exists>s'. Swap this other s = Inr s' \<and> consistent s'"
proof -
  from assms have v: "this < length (vars s)" "vars s ! this = Some t"
    "other < length (vars s)" "vars s ! other = Some src"
    by (simp_all add: var_Inr)
  let ?vs = "(vars s)[this := Some src]"
  have e1: "owners a ?vs + own t a = owners a (vars s) + own src a" for a
    using owners_update_Some [OF v(1,2)] .
  have o: "other < length ?vs" "?vs ! other = Some (if other = this then src else src)"
    using v by (simp_all add: nth_list_update)
  have e2: "owners a (?vs[other := Some t]) + own src a = owners a ?vs + own t a" for a
    using owners_update_Some [OF o(1), of src a t] o(2) by simp
  have eq: "owners a (?vs[other := Some t]) = owners a (vars s)" for a
    using e1 [of a] e2 [of a] by simp
  with inv_good [OF assms(1)] assms(2,3) show ?thesis
    by (simp add: Swap_def consistent_def)
qed

lemma destroy_ok:
  assumes "consistent s" and "var s v = Inr h"
  shows "\<exists>s'. destroy v s = Inr s' \<and> consistent s'"
proof -
  from assms(2) have l: "v < length (vars s)" "vars s ! v = Some h"
    by (simp_all add: var_Inr)
  let ?vs = "(vars s)[v := None]"
  have eq: "owners a ?vs + own h a = owners a (vars s)" for a
    using owners_update_None [OF l] .
  have "\<forall>a. good a (owners a ?vs + own h a) s"
    using inv_good [OF assms(1)] by (simp add: eq)
  from SharedPtr_dtor_good [OF this] obtain s1 where
    "SharedPtr_dtor h s = Inr s1" "vars s1 = vars s" "\<forall>a. good a (owners a ?vs) s1"
    by auto
  with assms(2) show ?thesis by (simp add: destroy_def consistent_def)
qed

lemma exec_inv:
  assumes "consistent s" and "length (vars s) < SIZE_MAX" and "exec x s = Inr s'"
  shows "consistent s'"
proof (cases x)
  case Default_ctor
  with assms Default_ctor_ok show ?thesis by auto
next
  case Nullptr_ctor
  with assms Nullptr_ctor_ok show ?thesis by auto
next
  case (Ptr_ctor p)
  with assms(3) Ptr_ctor_ok [OF assms(1), of p] show ?thesis by auto
next
  case (Make_shared r)
  with assms(3) Make_shared_frame [of r s s'] Make_shared_ok [OF assms(1)]
  show ?thesis by auto
next
  case (Copy_ctor v)
  with assms(3) copy_ctor_frame [of v s s'] copy_ctor_ok [OF assms(1,2), of v]
  show ?thesis by auto
next
  case (Move_ctor v)
  with assms(3) move_ctor_frame [of v s s'] move_ctor_ok [OF assms(1), of v]
  show ?thesis by auto
next
  case (Alias_ctor v p)
  with assms(3) alias_ctor_frame [of v p s s'] alias_ctor_ok [OF assms(1,2), of v _ p]
  show ?thesis by auto
next
  case (Copy_assign v w)
  with assms(3) have c: "copy_assign v w s = Inr s'" by simp
  from copy_assign_frame [OF c] obtain src where s: "var s w = Inr src"
    "operator_bool src \<longrightarrow> p_ctrl_block src \<noteq> None" "v < length (vars s)"
    by auto
  from c s(3) obtain old where "var s v = Inr old"
    by (cases "vars s ! v") (auto simp: copy_assign_def temp_Swap_def and_then_Inr var_Inr
        dest!: SharedPtr_copy_frame)
  from copy_assign_ok [OF assms(1,2) s(1,2) this] c show ?thesis by auto
next
  case (Move_assign v w)
  with assms(3) have c: "move_assign v w s = Inr s'" by simp
  from move_assign_frame [OF c] obtain src where s: "var s w = Inr src" "v < length (vars s)"
    by auto
  from c s obtain old where "var s v = Inr old"
    by (cases "vars s ! v"; cases "v = w")
      (auto simp: move_assign_def temp_Swap_def and_then_Inr var_Inr SharedPtr_move_eq)
  from move_assign_ok [OF assms(1) s(1) this] c show ?thesis by auto
next
  case (Reset_op v)
  with assms(3) have c: "Reset v s = Inr s'" by simp
  then obtain old where "var s v = Inr old"
    by (auto simp: Reset_def temp_Swap_def and_then_Inr)
  from Reset_ok [OF assms(1) this] c show ?thesis by auto
next
  case (Reset_ptr_op v p)
  with assms(3) have c: "Reset_ptr v p s = Inr s'" by simp
  obtain temp s1 where t: "SharedPtr_ptr p s = (temp, s1)" by force
  with c SharedPtr_ptr_frame [OF t] obtain old where "var s v = Inr old"
    by (auto simp: Reset_ptr_def temp_Swap_def and_then_Inr var_Inr)
  from Reset_ptr_ok [OF assms(1) this, of p] c show ?thesis by auto
next
  case (Swap_op v w)
  with assms(3) Swap_frame [of v w s s'] Swap_ok [OF assms(1), of v _ w]
  show ?thesis by auto
next
  case (Destroy v)
  with assms(3) destroy_frame [of v s s'] destroy_ok [OF assms(1), of v]
  show ?thesis by auto
qed

lemma exec_length_vars: "exec x s = Inr s' \<Longrightarrow> length (vars s') \<le> Suc (length (vars s))"
proof (cases x)
  case (Ptr_ctor p)
  assume "exec x s = Inr s'"
  with Ptr_ctor Ptr_ctor_frame [of p s s'] show ?thesis by simp
next
  case (Make_shared r)
  assume "exec x s = Inr s'"
  with Make_shared Make_shared_frame [of r s s'] show ?thesis by simp
next
  case (Copy_ctor v)
  assume "exec x s = Inr s'"
  with Copy_ctor copy_ctor_frame [of v s s'] show ?thesis by auto
next
  case (Move_ctor v)
  assume "exec x s = Inr s'"
  with Move_ctor move_ctor_frame [of v s s'] show ?thesis by auto
next
  case (Alias_ctor v p)
  assume "exec x s = Inr s'"
  with Alias_ctor alias_ctor_frame [of v p s s'] show ?thesis by auto
next
  case (Copy_assign v w)
  assume "exec x s = Inr s'"
  with Copy_assign copy_assign_frame [of v w s s'] show ?thesis by auto
next
  case (Move_assign v w)
  assume "exec x s = Inr s'"
  with Move_assign move_assign_frame [of v w s s'] show ?thesis by auto
next
  case (Reset_op v)
  assume "exec x s = Inr s'"
  with Reset_op Reset_frame [of v s s'] show ?thesis by auto
next
  case (Reset_ptr_op v p)
  assume "exec x s = Inr s'"
  with Reset_ptr_op Reset_ptr_frame [of v p s s'] show ?thesis by auto
next
  case (Swap_op v w)
  assume "exec x s = Inr s'"
  with Swap_op Swap_frame [of v w s s'] show ?thesis by auto
next
  case (Destroy v)
  assume "exec x s = Inr s'"
  with Destroy destroy_frame [of v s s'] show ?thesis by auto
qed auto

subsection \<open>Whole runs\<close>

lemma run_inv:
  "consistent s \<Longrightarrow> length (vars s) + length xs \<le> SIZE_MAX \<Longrightarrow> run xs s = Inr s' \<Longrightarrow>
   consistent s' \<and> length (vars s') \<le> length (vars s) + length xs"
proof (induction xs arbitrary: s)
  case Nil
  then show ?case by simp
next
  case (Cons x xs)
  from Cons.prems(3) obtain s1 where s1: "exec x s = Inr s1" "run xs s1 = Inr s'"
    by (auto simp: and_then_Inr)
  from Cons.prems(2) have "length (vars s) < SIZE_MAX" by simp
  from exec_inv [OF Cons.prems(1) this s1(1)] exec_length_vars [OF s1(1)] Cons.prems(2)
  have i: "consistent s1" "length (vars s1) + length xs \<le> SIZE_MAX"
    "length (vars s1) \<le> Suc (length (vars s))"
    by auto
  from Cons.IH [OF i(1,2) s1(2)] i(3) show ?case by simp
qed

lemma reachable_inv:
  assumes "run xs init = Inr s" and "length xs \<le> SIZE_MAX"
  shows "consistent s \<and> length (vars s) \<le> length xs"
  using run_inv [OF inv_init _ assms(1)] assms(2) by (simp add: init_def)

lemma run_handles:
  assumes "all_handles P s"
    and "P \<lparr>p_ctrl_block = None, raw_ptr = nullptr\<rparr>"
    and "\<forall>x\<in>set xs. \<forall>p\<in>set (ptr_args x). \<forall>a. P \<lparr>p_ctrl_block = Some a, raw_ptr = p\<rparr>"
    and "\<And>a. P \<lparr>p_ctrl_block = Some a, raw_ptr = Holder a\<rparr>"
    and "run xs s = Inr s'"
  shows "all_handles P s'"
  using assms(1,3,5)
proof (induction xs arbitrary: s)
  case Nil
  then show ?case by simp
next
  case (Cons x xs)
  from Cons.prems(3) obtain s1 where s1: "exec x s = Inr s1" "run xs s1 = Inr s'"
    by (auto simp: and_then_Inr)
  have "P \<lparr>p_ctrl_block = Some a, raw_ptr = p\<rparr>" if "p \<in> set (ptr_args x)" for a p
    using Cons.prems(2) that by simp
  then have "all_handles P s1"
    using exec_handles [OF Cons.prems(1) assms(2) _ assms(4) s1(1)] by blast
  moreover have "\<forall>x\<in>set xs. \<forall>p\<in>set (ptr_args x). \<forall>a. P \<lparr>p_ctrl_block = Some a, raw_ptr = p\<rparr>"
    using Cons.prems(2) by simp
  ultimately show ?case using s1(2) by (rule Cons.IH)
qed

subsection \<open>How a run can fail\<close>

lemma var_Inl: "var s v = Inl e \<Longrightarrow> e = Out_of_scope"
  by (auto simp: var_def split: if_splits option.splits)

lemma and_then_Inl: "and_then m f = Inl e \<longleftrightarrow> m = Inl e \<or> (\<exists>x. m = Inr x \<and> f x = Inl e)"
  by (cases m) (auto simp: and_then_def)

lemma MakeShared_Ctor_throws_eq:
  "MakeShared Ctor_throws s =
     Inr (Throw,
          s\<lparr>blocks := blocks s @ [None],
            trace := trace s @ [New (length (blocks s)), Destroy_holder (length (blocks s)),
                                Delete_this (length (blocks s))]\<rparr>)"
  by (simp add: MakeShared_def new_block_def SharedPtr_default_def SharedPtr_dtor_def
      DecrSharedCount_def block_at_def new_ControlBlockMakeShared_def OnZeroShared_def
      OnZeroWeak_def Let_def)

lemma temp_Swap_failure:
  assumes "\<forall>a. good a (owners a (vars s) + own temp a) s" and "temp_Swap temp this s = Inl e"
  shows "e = Out_of_scope"
proof (cases "var s this")
  case (Inl e')
  with assms(2) var_Inl [OF Inl] show ?thesis by (simp add: temp_Swap_def and_then_def)
next
  case (Inr old)
  from temp_Swap_ok [OF assms(1) Inr] assms(2) show ?thesis by auto
qed

text \<open>
  In a state with the right counts, in which a handle without control block has a null raw
  pointer, an operation fails only if it names a variable that is not in scope, if the
  constructor of \<^verbatim>\<open>T\<close> throws in \<^verbatim>\<open>MakeShared\<close>, or if the aliasing constructor is given a
  handle without control block. No operation ever touches a deleted control block.
\<close>

lemma exec_failure:
  assumes c: "consistent s"
    and h: "all_handles (\<lambda>h. p_ctrl_block h = None \<longrightarrow> raw_ptr h = nullptr) s"
    and l: "length (vars s) < SIZE_MAX"
    and x: "exec x s = Inl e"
  shows "e = Out_of_scope \<or> (e = Exception_propagated \<and> x = Make_shared Ctor_throws) \<or>
         (e = Null_deref \<and> (\<exists>v p. x = Alias_ctor v p))"
proof (cases x)
  case Default_ctor
  with x show ?thesis by simp
next
  case Nullptr_ctor
  with x show ?thesis by simp
next
  case (Ptr_ctor p)
  with x show ?thesis by (simp split: prod.splits)
next
  case (Make_shared r)
  show ?thesis
  proof (cases r)
    case Constructed
    with Make_shared x Make_shared_ok [OF c] show ?thesis by auto
  next
    case Ctor_throws
    with Make_shared x show ?thesis by (simp add: MakeShared_Ctor_throws_eq)
  qed
next
  case (Copy_ctor v)
  show ?thesis
  proof (cases "var s v")
    case (Inl e')
    with Copy_ctor x var_Inl [OF Inl] show ?thesis by (simp add: copy_ctor_def and_then_def)
  next
    case (Inr src)
    from all_handles_var [OF h Inr] have "operator_bool src \<longrightarrow> p_ctrl_block src \<noteq> None"
      by (auto simp: operator_bool_def Get_def)
    from copy_ctor_ok [OF c l Inr this] Copy_ctor x show ?thesis by auto
  qed
next
  case (Move_ctor v)
  show ?thesis
  proof (cases "var s v")
    case (Inl e')
    with Move_ctor x var_Inl [OF Inl] show ?thesis by (simp add: move_ctor_def and_then_def)
  next
    case (Inr src)
    from move_ctor_ok [OF c Inr] Move_ctor x show ?thesis by auto
  qed
next
  case (Alias_ctor v p)
  show ?thesis
  proof (cases "var s v")
    case (Inl e')
    with Alias_ctor x var_Inl [OF Inl] show ?thesis by (simp add: alias_ctor_def and_then_def)
  next
    case (Inr src)
    show ?thesis
    proof (cases "p_ctrl_block src")
      case None
      with Alias_ctor x Inr show ?thesis
        by (auto simp: alias_ctor_def SharedPtr_alias_def and_then_def)
    next
      case (Some a)
      then have "p_ctrl_block src \<noteq> None" by simp
      from alias_ctor_ok [OF c l Inr this, of p] Alias_ctor x show ?thesis by auto
    qed
  qed
next
  case (Copy_assign this v)
  show ?thesis
  proof (cases "var s v")
    case (Inl e')
    with Copy_assign x var_Inl [OF Inl] show ?thesis
      by (simp add: copy_assign_def and_then_def)
  next
    case (Inr src)
    from all_handles_var [OF h Inr] have "operator_bool src \<longrightarrow> p_ctrl_block src \<noteq> None"
      by (auto simp: operator_bool_def Get_def)
    from SharedPtr_copy_good [OF inv_good [OF c] owner_bounds [OF Inr l] this]
    obtain temp s1 where t: "SharedPtr_copy src s = Inr (temp, s1)"
      "\<forall>a. good a (owners a (vars s) + own temp a) s1"
      by blast
    from SharedPtr_copy_frame [OF t(1)] have "vars s1 = vars s" by simp
    with t(2) have g: "\<forall>a. good a (owners a (vars s1) + own temp a) s1" by simp
    from Copy_assign x Inr t(1) have "temp_Swap temp this s1 = Inl e"
      by (simp add: copy_assign_def)
    from temp_Swap_failure [OF g this] show ?thesis by simp
  qed
next
  case (Move_assign this v)
  let ?e = "\<lparr>p_ctrl_block = None, raw_ptr = nullptr\<rparr>"
  show ?thesis
  proof (cases "var s v")
    case (Inl e')
    with Move_assign x var_Inl [OF Inl] show ?thesis
      by (simp add: move_assign_def and_then_def)
  next
    case (Inr src)
    have g: "\<forall>a. good a (owners a (vars (set_var v ?e s)) + own src a) (set_var v ?e s)"
      using inv_good [OF c] owners_moved [OF Inr] by simp
    from Move_assign x Inr have "temp_Swap src this (set_var v ?e s) = Inl e"
      by (simp add: move_assign_def SharedPtr_move_eq)
    from temp_Swap_failure [OF g this] show ?thesis by simp
  qed
next
  case (Reset_op this)
  have g: "\<forall>a. good a (owners a (vars s) + own SharedPtr_default a) s"
    using inv_good [OF c] by simp
  from Reset_op x have "temp_Swap SharedPtr_default this s = Inl e" by (simp add: Reset_def)
  from temp_Swap_failure [OF g this] show ?thesis by simp
next
  case (Reset_ptr_op this p)
  obtain temp s1 where t: "SharedPtr_ptr p s = (temp, s1)" by force
  from SharedPtr_ptr_frame [OF t] have "vars s1 = vars s" by simp
  with SharedPtr_ptr_good [OF inv_good [OF c] t]
  have g: "\<forall>a. good a (owners a (vars s1) + own temp a) s1" by simp
  from Reset_ptr_op x t have "temp_Swap temp this s1 = Inl e" by (simp add: Reset_ptr_def)
  from temp_Swap_failure [OF g this] show ?thesis by simp
next
  case (Swap_op this v)
  show ?thesis
  proof (cases "var s this")
    case (Inl e')
    with Swap_op x var_Inl [OF Inl] show ?thesis by (simp add: Swap_def and_then_def)
  next
    case t: (Inr old)
    show ?thesis
    proof (cases "var s v")
      case (Inl e')
      with Swap_op x t var_Inl [OF Inl] show ?thesis by (simp add: Swap_def and_then_def)
    next
      case (Inr src)
      with Swap_op x t show ?thesis by (simp add: Swap_def)
    qed
  qed
next
  case (Destroy v)
  show ?thesis
  proof (cases "var s v")
    case (Inl e')
    with Destroy x var_Inl [OF Inl] show ?thesis by (simp add: destroy_def and_then_def)
  next
    case (Inr hd)
    from destroy_ok [OF c Inr] Destroy x show ?thesis by auto
  qed
qed

lemma run_failure_from:
  assumes "consistent s"
    and "all_handles (\<lambda>h. p_ctrl_block h = None \<longrightarrow> raw_ptr h = nullptr) s"
    and "length (vars s) + length xs \<le> SIZE_MAX"
    and "run xs s = Inl e"
  shows "e = Out_of_scope \<or> (e = Exception_propagated \<and> Make_shared Ctor_throws \<in> set xs) \<or>
         (e = Null_deref \<and> (\<exists>v p. Alias_ctor v p \<in> set xs))"
  using assms
proof (induction xs arbitrary: s)
  case Nil
  then show ?case by simp
next
  case (Cons x xs)
  from Cons.prems(3) have l: "length (vars s) < SIZE_MAX" by simp
  show ?case
  proof (cases "exec x s")
    case (Inl e')
    with Cons.prems(4) have "e' = e" by (simp add: and_then_def)
    with exec_failure [OF Cons.prems(1,2) l Inl] show ?thesis by auto
  next
    case (Inr s1)
    with Cons.prems(4) have r: "run xs s1 = Inl e" by simp
    have 1: "consistent s1" using exec_inv [OF Cons.prems(1) l Inr] .
    have 2: "all_handles (\<lambda>h. p_ctrl_block h = None \<longrightarrow> raw_ptr h = nullptr) s1"
      by (rule exec_handles [OF Cons.prems(2) _ _ _ Inr]) simp_all
    have 3: "length (vars s1) + length xs \<le> SIZE_MAX"
      using exec_length_vars [OF Inr] Cons.prems(3) by simp
    from Cons.IH [OF 1 2 3 r] show ?thesis by auto
  qed
qed

lemma run_failure:
  assumes "run xs init = Inl e" and "length xs \<le> SIZE_MAX"
  shows "e = Out_of_scope \<or> (e = Exception_propagated \<and> Make_shared Ctor_throws \<in> set xs) \<or>
         (e = Null_deref \<and> (\<exists>v p. Alias_ctor v p \<in> set xs))"
  by (rule run_failure_from [OF inv_init _ _ assms(1)])
    (use assms(2) in \<open>simp_all add: all_handles_def init_def\<close>)

section \<open>The control block\<close>

text \<open>
  C4. \<^verbatim>\<open>DecrSharedCount\<close> on a live control block whose \<^verbatim>\<open>shared_cnt_\<close> is not 0,
  in \<^verbatim>\<open>ControlBlockPtr\<close> and in \<^verbatim>\<open>ControlBlockMakeShared\<close> alike: the count goes down
  by one (without wrapping); if it reaches 0 the payload is destroyed by \<^verbatim>\<open>OnZeroShared\<close>,
  and if the weak count is 0 as well the block then deletes itself by \<^verbatim>\<open>OnZeroWeak\<close>,
  after the payload; nothing else happens.
\<close>

theorem DecrSharedCount_counts:
  assumes "block_at s a = Some b" and "shared_cnt b \<noteq> 0"
  shows "\<exists>s'. DecrSharedCount a s = Inr s' \<and> vars s' = vars s \<and>
           unat (shared_cnt b - 1) = unat (shared_cnt b) - 1 \<and>
           block_at s' a =
             (if shared_cnt b - 1 = 0 \<and> weak_cnt b = 0 then None
              else Some (b\<lparr>shared_cnt := shared_cnt b - 1\<rparr>)) \<and>
           trace s' = trace s @
             (if shared_cnt b - 1 = 0
              then OnZeroShared_event a b # (if weak_cnt b = 0 then [Delete_this a] else [])
              else [])"
proof -
  have "unat (shared_cnt b - 1) = unat (shared_cnt b) - 1"
    using assms(2) by (simp add: unat_minus_one)
  then show ?thesis
    using block_at_Some_less [OF assms(1)]
    by (simp add: DecrSharedCount_eq [OF assms(1)] word_pred_eq_0)
qed

theorem DecrSharedCount_counts_witness:
  "block_at \<lparr>vars = [], blocks = [Some (new_ControlBlockPtr (Obj 7))], trace = [New 0]\<rparr> 0 =
     Some (new_ControlBlockPtr (Obj 7)) \<and>
   shared_cnt (new_ControlBlockPtr (Obj 7)) \<noteq> 0 \<and>
   (\<exists>s'. DecrSharedCount 0 \<lparr>vars = [], blocks = [Some (new_ControlBlockPtr (Obj 7))],
                             trace = [New 0]\<rparr> = Inr s' \<and>
         block_at s' 0 = None \<and>
         trace s' = [New 0, Delete_p_obj 0 (Obj 7), Delete_this 0])"
proof -
  let ?s = "\<lparr>vars = [], blocks = [Some (new_ControlBlockPtr (Obj 7))], trace = [New 0]\<rparr>"
  have h1: "block_at ?s 0 = Some (new_ControlBlockPtr (Obj 7))"
    by (simp add: block_at_def)
  have h2: "shared_cnt (new_ControlBlockPtr (Obj 7)) \<noteq> 0"
    by (simp add: new_ControlBlockPtr_def)
  from DecrSharedCount_counts [OF h1 h2] obtain s' where
    "DecrSharedCount 0 ?s = Inr s'" "block_at s' 0 = None"
    "trace s' = [New 0, Delete_p_obj 0 (Obj 7), Delete_this 0]"
    by (auto simp: new_ControlBlockPtr_def OnZeroShared_event_def)
  with h1 h2 show ?thesis by blast
qed

section \<open>MakeShared\<close>


text \<open>
  C8. When the constructor of \<^verbatim>\<open>T\<close> throws, the destructor of the local \<^verbatim>\<open>result\<close>
  releases the control block, but on the way \<^verbatim>\<open>OnZeroShared\<close> calls the destructor of
  \<^verbatim>\<open>T\<close> on the \<^verbatim>\<open>holder_\<close> in which no \<^verbatim>\<open>T\<close> was ever constructed: the trace has
  \<open>Destroy_holder\<close> and no \<open>Construct\<close>.
\<close>

theorem MakeShared_throw_destroys_unconstructed:
  "MakeShared Ctor_throws init =
     Inr (Throw, \<lparr>vars = [], blocks = [None],
                  trace = [New 0, Destroy_holder 0, Delete_this 0]\<rparr>)"
  by (simp add: model_defs)

section \<open>A SharedPtr constructed from a null raw pointer\<close>

text \<open>
  C10. \<^verbatim>\<open>SharedPtr<T>(static_cast<T*>(nullptr))\<close> converts to false and its \<^verbatim>\<open>Get()\<close>
  is null, but it has a control block and its \<^verbatim>\<open>UseCount()\<close> is 1. Its copy is the empty
  handle (no control block, \<^verbatim>\<open>UseCount()\<close> 0), and copying changes nothing, so the count
  of the original stays 1.
\<close>

theorem null_raw_pointer_handle:
  "(case SharedPtr_ptr nullptr s of
      (h, s1) \<Rightarrow>
        \<not> operator_bool h \<and> Get h = nullptr \<and> p_ctrl_block h \<noteq> None \<and>
        UseCount h s1 = Inr 1 \<and>
        SharedPtr_copy h s1 = Inr (SharedPtr_default, s1) \<and>
        p_ctrl_block SharedPtr_default = None \<and> Get SharedPtr_default = nullptr \<and>
        UseCount SharedPtr_default s1 = Inr 0)"
  by (simp add: SharedPtr_ptr_def new_block_def operator_bool_def Get_def UseCount_def
      GetSharedCount_def block_at_def new_ControlBlockPtr_def SharedPtr_copy_def
      SharedPtr_default_def)

section \<open>UniquePtr\<close>

text \<open>
  C9. \<^verbatim>\<open>Release()\<close> returns the pointer stored in \<^verbatim>\<open>raw_ptr_\<close> (null or not), which
  is also what \<^verbatim>\<open>Get()\<close> returned before the call. It leaves the handle with a null
  \<^verbatim>\<open>raw_ptr_\<close>, so that \<^verbatim>\<open>Get()\<close> is null afterwards, and with the same deleter; nothing
  else of the handle changes. It calls no deleter, and neither the destructor nor a
  \<^verbatim>\<open>Reset\<close> of the released handle calls one afterwards.
\<close>

theorem Release_relinquishes:
  "(case Release u lg of
      (p, u', lg') \<Rightarrow>
        p = up_raw_ptr u \<and> up_raw_ptr u' = nullptr \<and> up_del u' = up_del u \<and>
        u' = u\<lparr>up_raw_ptr := nullptr\<rparr> \<and>
        p = UniquePtr_Get u \<and> UniquePtr_Get u' = nullptr \<and> GetDeleter u' = GetDeleter u \<and>
        lg' = lg \<and> UniquePtr_dtor u' lg' = (u', lg) \<and>
        snd (UniquePtr_dtor u' lg') = lg \<and> snd (UniquePtr_Reset q u' lg') = lg)"
  by (simp add: Release_def UniquePtr_Get_def GetDeleter_def UniquePtr_dtor_def
      UniquePtr_Reset_def Let_def)

section \<open>Programs over SharedPtr\<close>



text \<open>
  C2, as the code has it. In every program that runs, a handle without a control block has a
  null raw pointer. The converse holds as long as the program passes no null pointer to the
  raw-pointer constructor, to \<^verbatim>\<open>Reset(ptr)\<close> or to the aliasing constructor: then the
  control block of every handle is null exactly if its raw pointer is.
\<close>

theorem control_block_null_implies_raw_null:
  assumes "run ops init = Inr s" and "var s v = Inr h"
  shows "(p_ctrl_block h = None \<longrightarrow> raw_ptr h = nullptr) \<and>
         ((\<forall>x\<in>set ops. nullptr \<notin> set (ptr_args x)) \<longrightarrow>
            (p_ctrl_block h = None \<longleftrightarrow> raw_ptr h = nullptr))"
proof
  have "all_handles (\<lambda>h. p_ctrl_block h = None \<longrightarrow> raw_ptr h = nullptr) s"
    by (rule run_handles [OF _ _ _ _ assms(1)]) (simp_all add: all_handles_def init_def)
  from all_handles_var [OF this assms(2)]
  show "p_ctrl_block h = None \<longrightarrow> raw_ptr h = nullptr" .
next
  show "(\<forall>x\<in>set ops. nullptr \<notin> set (ptr_args x)) \<longrightarrow>
          (p_ctrl_block h = None \<longleftrightarrow> raw_ptr h = nullptr)"
  proof
    assume n: "\<forall>x\<in>set ops. nullptr \<notin> set (ptr_args x)"
    have "all_handles (\<lambda>h. p_ctrl_block h = None \<longleftrightarrow> raw_ptr h = nullptr) s"
      by (rule run_handles [OF _ _ _ _ assms(1)])
        (use n in \<open>auto simp: all_handles_def init_def\<close>)
    from all_handles_var [OF this assms(2)]
    show "p_ctrl_block h = None \<longleftrightarrow> raw_ptr h = nullptr" .
  qed
qed

theorem control_block_null_implies_raw_null_witness:
  "run [Ptr_ctor (Obj 0), Move_ctor 0] init =
     Inr \<lparr>vars = [Some \<lparr>p_ctrl_block = None, raw_ptr = nullptr\<rparr>,
                  Some \<lparr>p_ctrl_block = Some 0, raw_ptr = Obj 0\<rparr>],
          blocks = [Some \<lparr>weak_cnt = 0, shared_cnt = 1, derived = ControlBlockPtr (Obj 0)\<rparr>],
          trace = [New 0]\<rparr> \<and>
   var \<lparr>vars = [Some \<lparr>p_ctrl_block = None, raw_ptr = nullptr\<rparr>,
                Some \<lparr>p_ctrl_block = Some 0, raw_ptr = Obj 0\<rparr>],
        blocks = [Some \<lparr>weak_cnt = 0, shared_cnt = 1, derived = ControlBlockPtr (Obj 0)\<rparr>],
        trace = [New 0]\<rparr> 0 = Inr \<lparr>p_ctrl_block = None, raw_ptr = nullptr\<rparr> \<and>
   nullptr \<notin> set (ptr_args (Ptr_ctor (Obj 0))) \<and>
   nullptr \<notin> set (ptr_args (Move_ctor 0)) \<and>
   (p_ctrl_block \<lparr>p_ctrl_block = None, raw_ptr = nullptr\<rparr> = None \<longleftrightarrow>
      raw_ptr \<lparr>p_ctrl_block = None, raw_ptr = nullptr\<rparr> = nullptr)"
proof -
  let ?s = "\<lparr>vars = [Some \<lparr>p_ctrl_block = None, raw_ptr = nullptr\<rparr>,
                    Some \<lparr>p_ctrl_block = Some 0, raw_ptr = Obj 0\<rparr>],
             blocks = [Some \<lparr>weak_cnt = 0, shared_cnt = 1, derived = ControlBlockPtr (Obj 0)\<rparr>],
             trace = [New 0]\<rparr>"
  have h1: "run [Ptr_ctor (Obj 0), Move_ctor 0] init = Inr ?s"
    by (simp add: model_defs)
  have h2: "var ?s 0 = Inr \<lparr>p_ctrl_block = None, raw_ptr = nullptr\<rparr>"
    by (simp add: var_def)
  have h3: "\<forall>x\<in>set [Ptr_ctor (Obj 0), Move_ctor 0]. nullptr \<notin> set (ptr_args x)"
    by simp
  from control_block_null_implies_raw_null [OF h1 h2] h3
  have "p_ctrl_block \<lparr>p_ctrl_block = None, raw_ptr = nullptr\<rparr> = None \<longleftrightarrow>
          raw_ptr \<lparr>p_ctrl_block = None, raw_ptr = nullptr\<rparr> = nullptr"
    by blast
  moreover have "nullptr \<notin> set (ptr_args (Ptr_ctor (Obj 0)))"
    "nullptr \<notin> set (ptr_args (Move_ctor 0))"
    by simp_all
  ultimately show ?thesis using h1 h2 by blast
qed

text \<open>
  C2 as stated fails: the raw-pointer constructor allocates a control block for a null
  pointer as well, so the handle has a control block and a null raw pointer.
\<close>

theorem null_pointer_handle_has_control_block:
  "p_ctrl_block (fst (SharedPtr_ptr nullptr init)) = Some 0 \<and>
   raw_ptr (fst (SharedPtr_ptr nullptr init)) = nullptr"
  by (simp add: SharedPtr_ptr_def new_block_def init_def)

section \<open>Handles of a running program\<close>

lemma reachable_nonempty_has_block:
  assumes "run ops init = Inr s" and "var s v = Inr h" and "operator_bool h"
  shows "p_ctrl_block h \<noteq> None"
proof -
  have "all_handles (\<lambda>h. p_ctrl_block h = None \<longrightarrow> raw_ptr h = nullptr) s"
    by (rule run_handles [OF _ _ _ _ assms(1)]) (simp_all add: all_handles_def init_def)
  from all_handles_var [OF this assms(2)] assms(3) show ?thesis
    by (auto simp: operator_bool_def Get_def)
qed

lemma owner_block:
  assumes "consistent s" and "var s v = Inr h" and "p_ctrl_block h = Some a"
  shows "\<exists>b. block_at s a = Some b \<and> unat (shared_cnt b) = owners a (vars s) \<and>
           0 < owners a (vars s)"
proof -
  from assms(2,3) have "0 < owners a (vars s)"
    by (auto simp: var_Inr intro: owners_pos)
  with good_live [of a "owners a (vars s)" s] assms(1) show ?thesis
    by (auto simp: consistent_def)
qed

lemma UseCount_of_block:
  "var s v = Inr h \<Longrightarrow> p_ctrl_block h = Some a \<Longrightarrow> block_at s a = Some b \<Longrightarrow>
   UseCount_of v s = Inr (shared_cnt b)"
  by (simp add: UseCount_of_def UseCount_def GetSharedCount_def)

lemma UseCount_of_empty:
  "var s v = Inr h \<Longrightarrow> p_ctrl_block h = None \<Longrightarrow> UseCount_of v s = Inr 0"
  by (simp add: UseCount_of_def UseCount_def)

lemma copy_ctor_live:
  assumes "var s v = Inr h" and "operator_bool h" and "p_ctrl_block h = Some a"
    and "block_at s a = Some b"
  shows "copy_ctor v s =
           Inr (push_var h (s\<lparr>blocks := (blocks s)[a := Some (b\<lparr>shared_cnt := shared_cnt b + 1\<rparr>)]\<rparr>))"
  using assms by (cases h) (simp add: copy_ctor_def SharedPtr_copy_def IncrSharedCount_def)

lemma copies_count:
  assumes "consistent s" and "length (vars s) + n \<le> SIZE_MAX" and "var s v = Inr h"
    and "operator_bool h" and "p_ctrl_block h = Some a" and "block_at s a = Some b"
  shows "\<exists>s' b'. run (replicate n (Copy_ctor v)) s = Inr s' \<and>
           vars s' = vars s @ replicate n (Some h) \<and>
           block_at s' a = Some b' \<and> shared_cnt b' = shared_cnt b + of_nat n"
  using assms(1,2,3,6)
proof (induction n arbitrary: s b)
  case 0
  then show ?case by simp
next
  case (Suc n)
  let ?b1 = "b\<lparr>shared_cnt := shared_cnt b + 1\<rparr>"
  let ?s1 = "push_var h (s\<lparr>blocks := (blocks s)[a := Some ?b1]\<rparr>)"
  have c: "copy_ctor v s = Inr ?s1"
    using copy_ctor_live [OF Suc.prems(3) assms(4,5) Suc.prems(4)] .
  from Suc.prems(2) have "length (vars s) < SIZE_MAX" by simp
  from copy_ctor_ok [OF Suc.prems(1) this Suc.prems(3)] assms(5) c
  have 1: "consistent ?s1" by auto
  have 2: "length (vars ?s1) + n \<le> SIZE_MAX" using Suc.prems(2) by simp
  have 3: "var ?s1 v = Inr h" using Suc.prems(3) by (simp add: var_Inr nth_append)
  have 4: "block_at ?s1 a = Some ?b1"
    using block_at_Some_less [OF Suc.prems(4)] by simp
  from Suc.IH [OF 1 2 3 4] obtain s' b' where
    "run (replicate n (Copy_ctor v)) ?s1 = Inr s'"
    "vars s' = vars ?s1 @ replicate n (Some h)"
    "block_at s' a = Some b'" "shared_cnt b' = shared_cnt ?b1 + of_nat n"
    by blast
  with c show ?case by (simp add: replicate_app_Cons_same)
qed

lemma UseCount_vars_update [simp]: "UseCount h (s\<lparr>vars := x\<rparr>) = UseCount h s"
  by (simp add: UseCount_def GetSharedCount_def split: option.splits)

lemma UseCount_push_var [simp]: "UseCount h (push_var h' s) = UseCount h s"
  by (simp add: push_var_def)

lemma UseCount_set_var [simp]: "UseCount h (set_var v h' s) = UseCount h s"
  by (simp add: set_var_def)

lemma UseCount_exists:
  assumes "consistent s" and "var s v = Inr h"
  shows "\<exists>k. UseCount_of v s = Inr k"
proof (cases "p_ctrl_block h")
  case None
  with UseCount_of_empty [OF assms(2)] show ?thesis by blast
next
  case (Some a)
  from owner_block [OF assms Some] UseCount_of_block [OF assms(2) Some] show ?thesis by blast
qed

lemma copies_of_null:
  assumes "var s v = Inr h" and "\<not> operator_bool h"
  shows "run (replicate n (Copy_ctor v)) s =
           Inr (s\<lparr>vars := vars s @ replicate n (Some SharedPtr_default)\<rparr>)"
  using assms(1)
proof (induction n arbitrary: s)
  case 0
  then show ?case by simp
next
  case (Suc n)
  have c: "copy_ctor v s = Inr (push_var SharedPtr_default s)"
    using Suc.prems assms(2) by (simp add: copy_ctor_def SharedPtr_copy_def SharedPtr_default_def)
  have "var (push_var SharedPtr_default s) v = Inr h"
    using Suc.prems by (simp add: var_Inr nth_append)
  from Suc.IH [OF this] c show ?case
    by (simp add: push_var_def replicate_app_Cons_same)
qed

text \<open>
  C3, as the code has it. Let \<open>h\<close> be a handle of a running program whose \<^verbatim>\<open>UseCount()\<close>
  is \<open>k\<close>, and make \<open>n\<close> copies of it, all kept alive (the program with its copies stays
  within \<^verbatim>\<open>SIZE_MAX\<close> handles).
  \<^item> If \<^verbatim>\<open>Get()\<close> of \<open>h\<close> is not null, every copy equals \<open>h\<close> and \<^verbatim>\<open>h.UseCount()\<close> is
    \<open>k + n\<close>, without wrap-around: \<open>n + 1\<close> for a handle that was the only owner.
  \<^item> If \<^verbatim>\<open>Get()\<close> of \<open>h\<close> is null, every copy is the empty handle (no control block,
    null raw pointer, \<^verbatim>\<open>UseCount()\<close> 0) and the copies count nothing: no control block
    changes, no event happens, and \<^verbatim>\<open>h.UseCount()\<close> is still \<open>k\<close>.
\<close>

theorem UseCount_after_copies:
  assumes "run ops init = Inr s" and "length ops + n \<le> SIZE_MAX" and "var s v = Inr h"
  shows "\<exists>k s'. UseCount_of v s = Inr k \<and>
           run (replicate n (Copy_ctor v)) s = Inr s' \<and>
           (if operator_bool h
            then vars s' = vars s @ replicate n (Some h) \<and>
                 UseCount_of v s' = Inr (k + of_nat n) \<and>
                 unat (k + of_nat n) = unat k + n \<and>
                 (k = 1 \<longrightarrow> unat (k + of_nat n) = n + 1)
            else vars s' = vars s @ replicate n (Some SharedPtr_default) \<and>
                 p_ctrl_block SharedPtr_default = None \<and> Get SharedPtr_default = nullptr \<and>
                 UseCount SharedPtr_default s' = Inr 0 \<and>
                 blocks s' = blocks s \<and> trace s' = trace s \<and>
                 UseCount_of v s' = Inr k)"
proof (cases "operator_bool h")
  case True
  from reachable_inv [OF assms(1)] assms(2)
  have s: "consistent s" "length (vars s) + n \<le> SIZE_MAX" by auto
  from reachable_nonempty_has_block [OF assms(1,3) True] obtain a where
    a: "p_ctrl_block h = Some a" by auto
  from owner_block [OF s(1) assms(3) a] obtain b where
    b: "block_at s a = Some b" "unat (shared_cnt b) = owners a (vars s)" by auto
  from copies_count [OF s assms(3) True a b(1)] obtain s' b' where s':
    "run (replicate n (Copy_ctor v)) s = Inr s'" "vars s' = vars s @ replicate n (Some h)"
    "block_at s' a = Some b'" "shared_cnt b' = shared_cnt b + of_nat n"
    by blast
  have v': "var s' v = Inr h"
    using assms(3) s'(2) by (simp add: var_Inr nth_append)
  have "unat (shared_cnt b) + n < 2 ^ 64"
    using b(2) owners_le_length [of a "vars s"] s(2) by (simp add: SIZE_MAX_def)
  then have u: "unat (shared_cnt b + of_nat n) = unat (shared_cnt b) + n"
    by (simp add: unat_word_ariths unat_of_nat)
  show ?thesis
    using UseCount_of_block [OF assms(3) a b(1)] UseCount_of_block [OF v' a s'(3)] s' u True
    by auto
next
  case False
  from reachable_inv [OF assms(1)] assms(2) have c: "consistent s" by auto
  from UseCount_exists [OF c assms(3)] obtain k where k: "UseCount_of v s = Inr k" ..
  let ?s' = "s\<lparr>vars := vars s @ replicate n (Some SharedPtr_default)\<rparr>"
  have r: "run (replicate n (Copy_ctor v)) s = Inr ?s'"
    using copies_of_null [OF assms(3) False] .
  have "var ?s' v = Inr h"
    using assms(3) by (simp add: var_Inr nth_append)
  with k assms(3) have "UseCount_of v ?s' = Inr k"
    by (simp add: UseCount_of_def)
  moreover have "UseCount SharedPtr_default ?s' = Inr 0"
    by (simp add: UseCount_def SharedPtr_default_def)
  ultimately show ?thesis
    using k r False
    by (intro exI [of _ k] exI [of _ ?s']) (simp add: SharedPtr_default_def Get_def)
qed

theorem UseCount_after_copies_witness:
  "run [Ptr_ctor (Obj 0)] init =
     Inr \<lparr>vars = [Some \<lparr>p_ctrl_block = Some 0, raw_ptr = Obj 0\<rparr>],
          blocks = [Some \<lparr>weak_cnt = 0, shared_cnt = 1, derived = ControlBlockPtr (Obj 0)\<rparr>],
          trace = [New 0]\<rparr> \<and>
   length [Ptr_ctor (Obj 0)] + 2 \<le> SIZE_MAX \<and>
   var \<lparr>vars = [Some \<lparr>p_ctrl_block = Some 0, raw_ptr = Obj 0\<rparr>],
        blocks = [Some \<lparr>weak_cnt = 0, shared_cnt = 1, derived = ControlBlockPtr (Obj 0)\<rparr>],
        trace = [New 0]\<rparr> 0 = Inr \<lparr>p_ctrl_block = Some 0, raw_ptr = Obj 0\<rparr> \<and>
   operator_bool \<lparr>p_ctrl_block = Some 0, raw_ptr = Obj 0\<rparr> \<and>
   and_then (run (replicate 2 (Copy_ctor 0))
       \<lparr>vars = [Some \<lparr>p_ctrl_block = Some 0, raw_ptr = Obj 0\<rparr>],
        blocks = [Some \<lparr>weak_cnt = 0, shared_cnt = 1, derived = ControlBlockPtr (Obj 0)\<rparr>],
        trace = [New 0]\<rparr>) (UseCount_of 0) = Inr 3 \<and>
   run [Ptr_ctor nullptr] init =
     Inr \<lparr>vars = [Some \<lparr>p_ctrl_block = Some 0, raw_ptr = nullptr\<rparr>],
          blocks = [Some \<lparr>weak_cnt = 0, shared_cnt = 1, derived = ControlBlockPtr nullptr\<rparr>],
          trace = [New 0]\<rparr> \<and>
   length [Ptr_ctor nullptr] + 2 \<le> SIZE_MAX \<and>
   var \<lparr>vars = [Some \<lparr>p_ctrl_block = Some 0, raw_ptr = nullptr\<rparr>],
        blocks = [Some \<lparr>weak_cnt = 0, shared_cnt = 1, derived = ControlBlockPtr nullptr\<rparr>],
        trace = [New 0]\<rparr> 0 = Inr \<lparr>p_ctrl_block = Some 0, raw_ptr = nullptr\<rparr> \<and>
   \<not> operator_bool \<lparr>p_ctrl_block = Some 0, raw_ptr = nullptr\<rparr> \<and>
   and_then (run (replicate 2 (Copy_ctor 0))
       \<lparr>vars = [Some \<lparr>p_ctrl_block = Some 0, raw_ptr = nullptr\<rparr>],
        blocks = [Some \<lparr>weak_cnt = 0, shared_cnt = 1, derived = ControlBlockPtr nullptr\<rparr>],
        trace = [New 0]\<rparr>) (UseCount_of 0) = Inr 1 \<and>
   and_then (run (replicate 2 (Copy_ctor 0))
       \<lparr>vars = [Some \<lparr>p_ctrl_block = Some 0, raw_ptr = nullptr\<rparr>],
        blocks = [Some \<lparr>weak_cnt = 0, shared_cnt = 1, derived = ControlBlockPtr nullptr\<rparr>],
        trace = [New 0]\<rparr>) (UseCount_of 1) = Inr 0"
proof -
  let ?h = "\<lparr>p_ctrl_block = Some 0, raw_ptr = Obj 0\<rparr>"
  let ?s = "\<lparr>vars = [Some ?h],
             blocks = [Some \<lparr>weak_cnt = 0, shared_cnt = 1, derived = ControlBlockPtr (Obj 0)\<rparr>],
             trace = [New 0]\<rparr>"
  let ?g = "\<lparr>p_ctrl_block = Some 0, raw_ptr = nullptr\<rparr>"
  let ?t = "\<lparr>vars = [Some ?g],
             blocks = [Some \<lparr>weak_cnt = 0, shared_cnt = 1, derived = ControlBlockPtr nullptr\<rparr>],
             trace = [New 0]\<rparr>"
  have h1: "run [Ptr_ctor (Obj 0)] init = Inr ?s"
    by (simp add: model_defs)
  have h2: "length [Ptr_ctor (Obj 0)] + 2 \<le> SIZE_MAX"
    by (simp add: SIZE_MAX_def)
  have h3: "var ?s 0 = Inr ?h"
    by (simp add: var_def)
  have h4: "operator_bool ?h"
    by (simp add: operator_bool_def Get_def)
  have k: "UseCount_of 0 ?s = Inr 1"
    by (simp add: model_defs)
  from UseCount_after_copies [OF h1 h2 h3] h4 k obtain s' where
    "run (replicate 2 (Copy_ctor 0)) ?s = Inr s'" "UseCount_of 0 s' = Inr (1 + of_nat 2)"
    by auto
  then have a: "and_then (run (replicate 2 (Copy_ctor 0)) ?s) (UseCount_of 0) = Inr 3"
    by simp
  have g1: "run [Ptr_ctor nullptr] init = Inr ?t"
    by (simp add: model_defs)
  have g2: "length [Ptr_ctor nullptr] + 2 \<le> SIZE_MAX"
    by (simp add: SIZE_MAX_def)
  have g3: "var ?t 0 = Inr ?g"
    by (simp add: var_def)
  have g4: "\<not> operator_bool ?g"
    by (simp add: operator_bool_def Get_def)
  have j: "UseCount_of 0 ?t = Inr 1"
    by (simp add: model_defs)
  from UseCount_after_copies [OF g1 g2 g3] g4 j obtain t' where
    "run (replicate 2 (Copy_ctor 0)) ?t = Inr t'" "UseCount_of 0 t' = Inr 1"
    "vars t' = vars ?t @ replicate 2 (Some SharedPtr_default)"
    "UseCount SharedPtr_default t' = Inr 0"
    by auto
  then have b: "and_then (run (replicate 2 (Copy_ctor 0)) ?t) (UseCount_of 0) = Inr 1"
    "and_then (run (replicate 2 (Copy_ctor 0)) ?t) (UseCount_of 1) = Inr 0"
    by (simp_all add: numeral_2_eq_2 UseCount_of_def var_def)
  from h1 h2 h3 h4 a g1 g2 g3 g4 b show ?thesis by blast
qed

text \<open>
  C3 as stated fails for a handle whose \<^verbatim>\<open>Get()\<close> is null: the copy constructor makes
  an empty handle and counts nothing. After one copy of a default-constructed handle its
  \<^verbatim>\<open>UseCount()\<close> is 0, not 2.
\<close>

theorem empty_handle_copies_not_counted:
  "and_then (run [Default_ctor, Copy_ctor 0] init) (UseCount_of 0) = Inr 0"
  by (simp add: model_defs)

text \<open>
  C6. Let \<open>A\<close> be a handle of a running program whose \<^verbatim>\<open>Get()\<close> is not null, and \<open>P\<close> any
  pointer. The aliasing constructor succeeds; the new handle shares the control block of
  \<open>A\<close>, its \<^verbatim>\<open>Get()\<close> is \<open>P\<close>, and its \<^verbatim>\<open>UseCount()\<close> and that of \<open>A\<close> are both the
  former count of \<open>A\<close> plus one. Destroying \<open>A\<close> afterwards produces no event at all, so
  no payload destructor runs; the block stays live and the aliasing handle is left with a
  count that is not 0.
\<close>

theorem aliasing_keeps_payload_alive:
  assumes "run ops init = Inr s" and "length ops < SIZE_MAX" and "var s v = Inr A"
    and "operator_bool A"
  shows "\<exists>a k s1 s2.
           p_ctrl_block A = Some a \<and> UseCount_of v s = Inr k \<and>
           alias_ctor v P s = Inr s1 \<and>
           var s1 (length (vars s)) = Inr \<lparr>p_ctrl_block = Some a, raw_ptr = P\<rparr> \<and>
           Get \<lparr>p_ctrl_block = Some a, raw_ptr = P\<rparr> = P \<and>
           UseCount_of (length (vars s)) s1 = Inr (k + 1) \<and>
           UseCount_of v s1 = Inr (k + 1) \<and> unat (k + 1) = unat k + 1 \<and>
           destroy v s1 = Inr s2 \<and> trace s2 = trace s \<and>
           payload_dtor_runs a (trace s2) = 0 \<and>
           block_at s2 a \<noteq> None \<and>
           UseCount_of (length (vars s)) s2 = Inr k \<and> k \<noteq> 0"
proof -
  from reachable_inv [OF assms(1)] assms(2)
  have s: "consistent s" "length (vars s) < SIZE_MAX" by auto
  from reachable_nonempty_has_block [OF assms(1,3,4)] obtain a where
    a: "p_ctrl_block A = Some a" by auto
  from owner_block [OF s(1) assms(3) a] obtain b where
    b: "block_at s a = Some b" "unat (shared_cnt b) = owners a (vars s)"
    "0 < owners a (vars s)" by auto
  have lt: "a < length (blocks s)" using b(1) by (rule block_at_Some_less)
  have v: "v < length (vars s)" "vars s ! v = Some A"
    using assms(3) by (simp_all add: var_Inr)
  let ?k = "shared_cnt b"
  let ?h = "\<lparr>p_ctrl_block = Some a, raw_ptr = P\<rparr>"
  let ?s1 = "push_var ?h (s\<lparr>blocks := (blocks s)[a := Some (b\<lparr>shared_cnt := ?k + 1\<rparr>)]\<rparr>)"
  have k0: "?k \<noteq> 0" using b(2,3) by auto
  have "unat ?k < SIZE_MAX"
    using b(2) owners_le_length [of a "vars s"] s(2) by simp
  then have u: "unat (?k + 1) = unat ?k + 1"
    by (simp add: unat_word_ariths SIZE_MAX_def)
  then have k1: "?k + 1 \<noteq> 1" using k0 by auto
  have al: "alias_ctor v P s = Inr ?s1"
    using assms(3) a b(1) by (simp add: alias_ctor_def SharedPtr_alias_def IncrSharedCount_def)
  have v1: "var ?s1 v = Inr A" "var ?s1 (length (vars s)) = Inr ?h"
    using v by (simp_all add: var_Inr nth_append)
  have b1: "block_at ?s1 a = Some (b\<lparr>shared_cnt := ?k + 1\<rparr>)"
    using lt by simp
  have "SharedPtr_dtor A ?s1 =
          Inr (?s1\<lparr>blocks := (blocks ?s1)[a := Some (b\<lparr>shared_cnt := ?k\<rparr>)]\<rparr>)"
    using a k1 by (simp add: SharedPtr_dtor_def DecrSharedCount_eq [OF b1])
  then have d: "destroy v ?s1 =
          Inr (?s1\<lparr>blocks := (blocks ?s1)[a := Some (b\<lparr>shared_cnt := ?k\<rparr>)],
                   vars := (vars ?s1)[v := None]\<rparr>)"
    (is "_ = Inr ?s2")
    using v1(1) by (simp add: destroy_def)
  have t2: "trace ?s2 = trace s" by (simp add: push_var_def)
  have b2: "block_at ?s2 a = Some (b\<lparr>shared_cnt := ?k\<rparr>)"
    using lt by (simp add: block_at_def push_var_def)
  have v2: "var ?s2 (length (vars s)) = Inr ?h"
    using v by (simp add: var_Inr nth_append push_var_def)
  have r: "payload_dtor_runs a (trace s) = 0"
    using s(1) b(1) by (auto simp: consistent_def good_def split: option.splits dest!: spec [of _ a])
  show ?thesis
    using a UseCount_of_block [OF assms(3) a b(1)] al v1(2)
      UseCount_of_block [OF v1(2) _ b1] UseCount_of_block [OF v1(1) a b1] u d t2 r b2
      UseCount_of_block [OF v2 _ b2] k0
    by (intro exI [of _ a] exI [of _ ?k] exI [of _ ?s1] exI [of _ ?s2]) (simp add: Get_def)
qed

theorem aliasing_keeps_payload_alive_witness:
  "run [Ptr_ctor (Obj 0)] init =
     Inr \<lparr>vars = [Some \<lparr>p_ctrl_block = Some 0, raw_ptr = Obj 0\<rparr>],
          blocks = [Some \<lparr>weak_cnt = 0, shared_cnt = 1, derived = ControlBlockPtr (Obj 0)\<rparr>],
          trace = [New 0]\<rparr> \<and>
   length [Ptr_ctor (Obj 0)] < SIZE_MAX \<and>
   var \<lparr>vars = [Some \<lparr>p_ctrl_block = Some 0, raw_ptr = Obj 0\<rparr>],
        blocks = [Some \<lparr>weak_cnt = 0, shared_cnt = 1, derived = ControlBlockPtr (Obj 0)\<rparr>],
        trace = [New 0]\<rparr> 0 = Inr \<lparr>p_ctrl_block = Some 0, raw_ptr = Obj 0\<rparr> \<and>
   operator_bool \<lparr>p_ctrl_block = Some 0, raw_ptr = Obj 0\<rparr> \<and>
   and_then (alias_ctor 0 (Obj 1)
       \<lparr>vars = [Some \<lparr>p_ctrl_block = Some 0, raw_ptr = Obj 0\<rparr>],
        blocks = [Some \<lparr>weak_cnt = 0, shared_cnt = 1, derived = ControlBlockPtr (Obj 0)\<rparr>],
        trace = [New 0]\<rparr>) (UseCount_of 1) = Inr 2 \<and>
   and_then (and_then (alias_ctor 0 (Obj 1)
       \<lparr>vars = [Some \<lparr>p_ctrl_block = Some 0, raw_ptr = Obj 0\<rparr>],
        blocks = [Some \<lparr>weak_cnt = 0, shared_cnt = 1, derived = ControlBlockPtr (Obj 0)\<rparr>],
        trace = [New 0]\<rparr>) (destroy 0)) (UseCount_of 1) = Inr 1"
proof -
  let ?s = "\<lparr>vars = [Some \<lparr>p_ctrl_block = Some 0, raw_ptr = Obj 0\<rparr>],
             blocks = [Some \<lparr>weak_cnt = 0, shared_cnt = 1, derived = ControlBlockPtr (Obj 0)\<rparr>],
             trace = [New 0]\<rparr>"
  have h1: "run [Ptr_ctor (Obj 0)] init = Inr ?s"
    by (simp add: model_defs)
  have h2: "length [Ptr_ctor (Obj 0)] < SIZE_MAX"
    by (simp add: SIZE_MAX_def)
  have h3: "var ?s 0 = Inr \<lparr>p_ctrl_block = Some 0, raw_ptr = Obj 0\<rparr>"
    by (simp add: var_def)
  have h4: "operator_bool \<lparr>p_ctrl_block = Some 0, raw_ptr = Obj 0\<rparr>"
    by (simp add: operator_bool_def Get_def)
  have k: "UseCount_of 0 ?s = Inr 1"
    by (simp add: model_defs)
  from aliasing_keeps_payload_alive [OF h1 h2 h3 h4, of "Obj 1"] k obtain s1 s2 where
    "alias_ctor 0 (Obj 1) ?s = Inr s1" "UseCount_of 1 s1 = Inr (1 + 1)"
    "destroy 0 s1 = Inr s2" "UseCount_of 1 s2 = Inr 1"
    by auto
  then have "and_then (alias_ctor 0 (Obj 1) ?s) (UseCount_of 1) = Inr 2"
    "and_then (and_then (alias_ctor 0 (Obj 1) ?s) (destroy 0)) (UseCount_of 1) = Inr 1"
    by simp_all
  with h1 h2 h3 h4 show ?thesis by blast
qed

lemma SharedPtr_dtor_block:
  assumes "block_at s a = Some b" and "SharedPtr_dtor h s = Inr s'"
  shows "(p_ctrl_block h \<noteq> Some a \<longrightarrow> block_at s' a = Some b) \<and>
         (p_ctrl_block h = Some a \<longrightarrow> shared_cnt b \<noteq> 1 \<longrightarrow>
            block_at s' a = Some (b\<lparr>shared_cnt := shared_cnt b - 1\<rparr>))"
proof (cases "p_ctrl_block h")
  case None
  with assms show ?thesis by (simp add: SharedPtr_dtor_def)
next
  case (Some a')
  with assms(2) have d: "DecrSharedCount a' s = Inr s'" by (simp add: SharedPtr_dtor_def)
  then obtain b' where b': "block_at s a' = Some b'"
    by (cases "block_at s a'") (auto simp: DecrSharedCount_def)
  from d assms(1) b' Some block_at_Some_less [OF b'] show ?thesis
    unfolding DecrSharedCount_eq [OF b'] by (auto split: if_splits)
qed

text \<open>
  C7, as the code has it, for a handle \<open>other\<close> of a running program whose
  \<^verbatim>\<open>UseCount()\<close> is \<open>k\<close>.
  \<^item> Move construction leaves \<open>other\<close> empty (null raw pointer, null control block); the
    new handle is the old \<open>other\<close> and its \<^verbatim>\<open>UseCount()\<close> is \<open>k\<close>.
  \<^item> Move assignment to a different handle \<open>this\<close> leaves \<open>other\<close> empty and makes
    \<open>this\<close> the old \<open>other\<close>. Its \<^verbatim>\<open>UseCount()\<close> is \<open>k\<close>, unless \<open>this\<close> owned the
    same control block before: then the ownership that \<open>this\<close> gives up is one of the
    \<open>k \<ge> 2\<close>, and the count is \<open>k - 1\<close>.
  \<^item> Move assignment of a handle to itself changes nothing: the handle is not emptied.
\<close>

theorem move_transfers_ownership:
  assumes "run ops init = Inr s" and "length ops \<le> SIZE_MAX" and "var s other = Inr src"
  shows "\<exists>k. UseCount_of other s = Inr k \<and>
           (\<exists>s'. move_ctor other s = Inr s' \<and>
                 var s' other = Inr SharedPtr_default \<and>
                 var s' (length (vars s)) = Inr src \<and>
                 UseCount_of (length (vars s)) s' = Inr k) \<and>
           (\<forall>this old. var s this = Inr old \<and> this \<noteq> other \<longrightarrow>
              (\<exists>s'. move_assign this other s = Inr s' \<and>
                    var s' other = Inr SharedPtr_default \<and>
                    var s' this = Inr src \<and>
                    (if p_ctrl_block src \<noteq> None \<and> p_ctrl_block old = p_ctrl_block src
                     then UseCount_of this s' = Inr (k - 1) \<and> 2 \<le> unat k
                     else UseCount_of this s' = Inr k))) \<and>
           move_assign other other s = Inr s"
proof -
  let ?e = "\<lparr>p_ctrl_block = None, raw_ptr = nullptr\<rparr>"
  from reachable_inv [OF assms(1,2)] have c: "consistent s" by simp
  from UseCount_exists [OF c assms(3)] obtain k where k: "UseCount_of other s = Inr k" ..
  then have k': "UseCount src s = Inr k" using assms(3) by (simp add: UseCount_of_def)
  have o: "other < length (vars s)" "vars s ! other = Some src"
    using assms(3) by (simp_all add: var_Inr)
  have 1: "\<exists>s'. move_ctor other s = Inr s' \<and> var s' other = Inr SharedPtr_default \<and>
             var s' (length (vars s)) = Inr src \<and> UseCount_of (length (vars s)) s' = Inr k"
    using assms(3) o k'
    by (simp add: move_ctor_def SharedPtr_move_eq var_Inr nth_append SharedPtr_default_def
        UseCount_of_def var_def)
  have 2: "\<exists>s'. move_assign this other s = Inr s' \<and>
             var s' other = Inr SharedPtr_default \<and> var s' this = Inr src \<and>
             (if p_ctrl_block src \<noteq> None \<and> p_ctrl_block old = p_ctrl_block src
              then UseCount_of this s' = Inr (k - 1) \<and> 2 \<le> unat k
              else UseCount_of this s' = Inr k)"
    if t: "var s this = Inr old" and ne: "this \<noteq> other" for this old
  proof -
    from move_assign_ok [OF c assms(3) t] obtain s' where s': "move_assign this other s = Inr s'"
      by blast
    from move_assign_frame [OF s'] assms(3)
    have vs: "vars s' = (vars s)[other := Some ?e, this := Some src]" by simp
    have tl: "this < length (vars s)" "vars s ! this = Some old"
      using t by (simp_all add: var_Inr)
    have v1: "var s' other = Inr SharedPtr_default" "var s' this = Inr src"
      using vs o tl ne by (simp_all add: var_Inr SharedPtr_default_def)
    let ?mid = "set_var this src (set_var other ?e s)"
    have "var (set_var other ?e s) this = Inr old"
      using tl ne by (simp add: var_Inr)
    with s' assms(3) have d: "SharedPtr_dtor old ?mid = Inr s'"
      by (simp add: move_assign_def SharedPtr_move_eq temp_Swap_def)
    have u: "UseCount_of this s' = UseCount src s'"
      using v1(2) by (simp add: UseCount_of_def)
    show ?thesis
    proof (cases "p_ctrl_block src")
      case None
      with k' u have "UseCount_of this s' = Inr k" by (simp add: UseCount_def)
      with s' v1 None show ?thesis by auto
    next
      case (Some a)
      from owner_block [OF c assms(3) Some] obtain b where
        b: "block_at s a = Some b" "unat (shared_cnt b) = owners a (vars s)" by auto
      with k' Some have kb: "k = shared_cnt b"
        by (simp add: UseCount_def GetSharedCount_def)
      have bm: "block_at ?mid a = Some b" using b(1) by simp
      show ?thesis
      proof (cases "p_ctrl_block old = Some a")
        case True
        from owners_two [OF tl True o Some ne] b(2) kb have two: "2 \<le> unat k" by simp
        then have "shared_cnt b \<noteq> 1" using kb by auto
        with SharedPtr_dtor_block [OF bm d] True
        have "block_at s' a = Some (b\<lparr>shared_cnt := shared_cnt b - 1\<rparr>)" by simp
        with u Some kb have "UseCount_of this s' = Inr (k - 1)"
          by (simp add: UseCount_def GetSharedCount_def)
        with s' v1 Some True two show ?thesis by auto
      next
        case False
        with SharedPtr_dtor_block [OF bm d] have "block_at s' a = Some b" by simp
        with u Some kb have "UseCount_of this s' = Inr k"
          by (simp add: UseCount_def GetSharedCount_def)
        with s' v1 Some False show ?thesis by auto
      qed
    qed
  qed
  have "set_var other src (set_var other ?e s) = s"
    using o by (simp add: set_var_def list_update_same_conv [THEN iffD2])
  then have 3: "move_assign other other s = Inr s"
    using assms(3) o
    by (simp add: move_assign_def SharedPtr_move_eq temp_Swap_def var_def SharedPtr_dtor_def)
  from k 1 2 3 show ?thesis by blast
qed

theorem move_transfers_ownership_witness:
  "run [Ptr_ctor (Obj 0), Copy_ctor 0] init =
     Inr \<lparr>vars = [Some \<lparr>p_ctrl_block = Some 0, raw_ptr = Obj 0\<rparr>,
                  Some \<lparr>p_ctrl_block = Some 0, raw_ptr = Obj 0\<rparr>],
          blocks = [Some \<lparr>weak_cnt = 0, shared_cnt = 2, derived = ControlBlockPtr (Obj 0)\<rparr>],
          trace = [New 0]\<rparr> \<and>
   length [Ptr_ctor (Obj 0), Copy_ctor 0] \<le> SIZE_MAX \<and>
   var \<lparr>vars = [Some \<lparr>p_ctrl_block = Some 0, raw_ptr = Obj 0\<rparr>,
                Some \<lparr>p_ctrl_block = Some 0, raw_ptr = Obj 0\<rparr>],
        blocks = [Some \<lparr>weak_cnt = 0, shared_cnt = 2, derived = ControlBlockPtr (Obj 0)\<rparr>],
        trace = [New 0]\<rparr> 1 = Inr \<lparr>p_ctrl_block = Some 0, raw_ptr = Obj 0\<rparr> \<and>
   and_then (move_ctor 1
       \<lparr>vars = [Some \<lparr>p_ctrl_block = Some 0, raw_ptr = Obj 0\<rparr>,
                Some \<lparr>p_ctrl_block = Some 0, raw_ptr = Obj 0\<rparr>],
        blocks = [Some \<lparr>weak_cnt = 0, shared_cnt = 2, derived = ControlBlockPtr (Obj 0)\<rparr>],
        trace = [New 0]\<rparr>) (UseCount_of 2) = Inr 2 \<and>
   and_then (move_assign 0 1
       \<lparr>vars = [Some \<lparr>p_ctrl_block = Some 0, raw_ptr = Obj 0\<rparr>,
                Some \<lparr>p_ctrl_block = Some 0, raw_ptr = Obj 0\<rparr>],
        blocks = [Some \<lparr>weak_cnt = 0, shared_cnt = 2, derived = ControlBlockPtr (Obj 0)\<rparr>],
        trace = [New 0]\<rparr>) (UseCount_of 0) = Inr 1"
proof -
  let ?h = "\<lparr>p_ctrl_block = Some 0, raw_ptr = Obj 0\<rparr>"
  let ?s = "\<lparr>vars = [Some ?h, Some ?h],
             blocks = [Some \<lparr>weak_cnt = 0, shared_cnt = 2, derived = ControlBlockPtr (Obj 0)\<rparr>],
             trace = [New 0]\<rparr>"
  have h1: "run [Ptr_ctor (Obj 0), Copy_ctor 0] init = Inr ?s"
    by (simp add: model_defs)
  have h2: "length [Ptr_ctor (Obj 0), Copy_ctor 0] \<le> SIZE_MAX"
    by (simp add: SIZE_MAX_def)
  have h3: "var ?s 1 = Inr ?h"
    by (simp add: var_def)
  have h4: "var ?s 0 = Inr ?h \<and> (0::nat) \<noteq> 1"
    by (simp add: var_def)
  have k: "UseCount_of 1 ?s = Inr 2"
    by (simp add: model_defs)
  from move_transfers_ownership [OF h1 h2 h3] obtain k' where
    K: "UseCount_of 1 ?s = Inr k'"
    and M: "\<exists>s'. move_ctor 1 ?s = Inr s' \<and> var s' 1 = Inr SharedPtr_default \<and>
              var s' (length (vars ?s)) = Inr ?h \<and>
              UseCount_of (length (vars ?s)) s' = Inr k'"
    and A: "\<forall>this old. var ?s this = Inr old \<and> this \<noteq> 1 \<longrightarrow>
              (\<exists>s'. move_assign this 1 ?s = Inr s' \<and>
                    var s' 1 = Inr SharedPtr_default \<and> var s' this = Inr ?h \<and>
                    (if p_ctrl_block ?h \<noteq> None \<and> p_ctrl_block old = p_ctrl_block ?h
                     then UseCount_of this s' = Inr (k' - 1) \<and> 2 \<le> unat k'
                     else UseCount_of this s' = Inr k'))"
    by blast
  from K k have k2: "k' = 2" by simp
  from M obtain s' where "move_ctor 1 ?s = Inr s'"
    "UseCount_of (length (vars ?s)) s' = Inr k'"
    by blast
  with k2 have "and_then (move_ctor 1 ?s) (UseCount_of 2) = Inr 2"
    by (simp add: numeral_2_eq_2)
  moreover from A h4 obtain s'' where "move_assign 0 1 ?s = Inr s''"
    "if p_ctrl_block ?h \<noteq> None \<and> p_ctrl_block ?h = p_ctrl_block ?h
     then UseCount_of 0 s'' = Inr (k' - 1) \<and> 2 \<le> unat k'
     else UseCount_of 0 s'' = Inr k'"
    by blast
  with k2 have "and_then (move_assign 0 1 ?s) (UseCount_of 0) = Inr 1" by simp
  ultimately show ?thesis using h1 h2 h3 by blast
qed

text \<open>
  C7 as stated fails when the destination of a move assignment already owns the object:
  \<open>a\<close> owns object 0, \<open>b\<close> is a copy of \<open>a\<close> (count 2); after \<^verbatim>\<open>a = std::move(b)\<close>
  the count of the moved object is 1.
\<close>

theorem move_assign_to_co_owner_drops_count:
  "and_then (run [Ptr_ctor (Obj 0), Copy_ctor 0] init) (UseCount_of 1) = Inr 2 \<and>
   and_then (run [Ptr_ctor (Obj 0), Copy_ctor 0, Move_assign 0 1] init) (UseCount_of 0) = Inr 1"
  by (simp add: model_defs)

end
